theory Spec2Isabelle
  imports
    Complex_Main
    "HOL-Library.Char_ord"
    "HOL-Library.List_Lexorder"
    "HOL-Library.Product_Lexorder"
begin

section \<open>HaploMapper, step 2: haplogroup frequency tables\<close>

text \<open>
  A shallow embedding of \<^verbatim>\<open>src/step2_frequencyTable/new_haplogroup_frequency_tables.py\<close>,
  the script that builds the basal and subclade frequency tables.

  Conventions of the model.
  \<^item> A Python \<^verbatim>\<open>str\<close> is a \<^typ>\<open>string\<close>. The character functions below are the ones of
    Python on ASCII text, which is what haplogroup codes are written in; characters
    above 127 are neither whitespace, digits nor letters here.
  \<^item> A pandas float cell is a \<^typ>\<open>rat option\<close>: \<open>None\<close> is NaN, \<open>Some q\<close> is the number
    \<open>q\<close>, computed exactly (binary rounding of doubles is not modelled).
  \<^item> A \<^verbatim>\<open>ValueError\<close> raised by the script is a value \<open>Inl e\<close>; lines it prints as
    warnings are returned in a list.
\<close>

subsection \<open>Python string primitives\<close>

definition isspace :: "char \<Rightarrow> bool" where
  \<comment> \<open>\<^verbatim>\<open>str.isspace\<close> on one ASCII character: TAB, LF, VT, FF, CR, FS, GS, RS, US, SPACE.\<close>
  "isspace c = (let n = (of_char c :: nat) in (9 \<le> n \<and> n \<le> 13) \<or> (28 \<le> n \<and> n \<le> 32))"

definition isdigit :: "char \<Rightarrow> bool" where
  \<comment> \<open>\<^verbatim>\<open>str.isdigit\<close> on one ASCII character.\<close>
  "isdigit c = (let n = (of_char c :: nat) in 48 \<le> n \<and> n \<le> 57)"

definition upper_char :: "char \<Rightarrow> char" where
  \<comment> \<open>\<^verbatim>\<open>str.upper\<close> on one ASCII character.\<close>
  "upper_char c =
     (case map_of (zip ''abcdefghijklmnopqrstuvwxyz'' ''ABCDEFGHIJKLMNOPQRSTUVWXYZ'') c of
        None \<Rightarrow> c
      | Some u \<Rightarrow> u)"

definition upper :: "string \<Rightarrow> string" where
  \<comment> \<open>\<^verbatim>\<open>str.upper\<close>.\<close>
  "upper s = map upper_char s"

definition strip :: "string \<Rightarrow> string" where
  \<comment> \<open>\<^verbatim>\<open>str.strip()\<close>: leading and trailing whitespace removed.\<close>
  "strip s = rev (dropWhile isspace (rev (dropWhile isspace s)))"

definition digit_char :: "nat \<Rightarrow> char" where
  "digit_char d = ''0123456789'' ! d"

fun str_nat :: "nat \<Rightarrow> string" where
  "str_nat n = (if n < 10 then [digit_char n] else str_nat (n div 10) @ [digit_char (n mod 10)])"

declare str_nat.simps [simp del]

definition str_int :: "int \<Rightarrow> string" where
  \<comment> \<open>\<^verbatim>\<open>str(i)\<close> for a Python int.\<close>
  "str_int i = (if i < 0 then CHR ''-'' # str_nat (nat (- i)) else str_nat (nat i))"

subsection \<open>Haplogroup classification (\<^verbatim>\<open>make_haplo_table\<close>, steps 1 and 2)\<close>

definition invalid_patterns :: "string list" where
  "invalid_patterns = ['''', ''..'', ''n/a'', ''N/A'', ''Neanderthal'']"

definition is_valid_haplo :: "string \<Rightarrow> bool" where
  \<comment> \<open>The nested \<^verbatim>\<open>is_valid_haplo\<close>; \<^verbatim>\<open>x[1]\<close> is read only when \<^verbatim>\<open>len(x) >= 2\<close>.\<close>
  "is_valid_haplo x0 = (let x = strip x0 in length x = 1 \<or> (length x \<ge> 2 \<and> isdigit (x ! 1)))"

definition passes_filters :: "string \<Rightarrow> bool" where
  \<comment> \<open>A cell survives both filters that build \<^verbatim>\<open>df_valid\<close>: the \<^verbatim>\<open>isin(invalid_patterns)\<close>
      mask on the stripped cell, then \<^verbatim>\<open>is_valid_haplo\<close>.\<close>
  "passes_filters h = (strip h \<notin> set invalid_patterns \<and> is_valid_haplo h)"

definition haplo_basal_of :: "string \<Rightarrow> string option" where
  \<comment> \<open>\<^verbatim>\<open>.str[0].str.upper()\<close> on the raw cell; pandas gives NaN for an empty string.\<close>
  "haplo_basal_of h = (case h of [] \<Rightarrow> None | c # _ \<Rightarrow> Some [upper_char c])"

definition parse_subclade :: "string \<Rightarrow> string option" where
  "parse_subclade h0 =
     (let h = strip h0 in
      if length h < 2 then None
      else if isdigit (h ! 1) then Some (upper (take 2 h))
      else None)"

text \<open>The validity predicate in the words of the specification.\<close>

definition spec_valid :: "string \<Rightarrow> bool" where
  "spec_valid h =
     (let x = strip h in
      (length x = 1 \<or> (length x \<ge> 2 \<and> isdigit (x ! 1)))
      \<and> x \<noteq> '''' \<and> x \<noteq> ''..'' \<and> x \<noteq> ''n/a'' \<and> x \<noteq> ''N/A'' \<and> x \<noteq> ''Neanderthal'')"


subsection \<open>Preprocessing in \<^verbatim>\<open>main\<close>: age bins and group labels\<close>

text \<open>
  One input row, after \<^verbatim>\<open>pd.to_numeric(..., errors='coerce')\<close> has been applied to the age,
  latitude and longitude cells. \<open>haplo\<close> is the cell of the haplogroup column the table is
  built for (\<^verbatim>\<open>make_haplo_table\<close> is called once per haplogroup column).
\<close>

record sample =
  political_entity :: string
  age_numeric :: "rat option"
  lat_numeric :: "rat option"
  long_numeric :: "rat option"
  haplo :: string

text \<open>The same row with the columns \<^verbatim>\<open>binned_age\<close> and \<^verbatim>\<open>Ancient pop name\<close> added.\<close>

record row = sample +
  binned_age :: string
  ancient_pop_name :: string

datatype error =
    NoValidAge          \<comment> \<open>\<^verbatim>\<open>sys.exit\<close>: no valid age values\<close>
  | NoHaploInfo         \<comment> \<open>the haplogroup column is blank throughout: table skipped\<close>
  | NoValidEntries      \<comment> \<open>\<^verbatim>\<open>ValueError\<close> after the placeholder filter\<close>
  | NoPatternEntries    \<comment> \<open>\<^verbatim>\<open>ValueError\<close> after \<^verbatim>\<open>is_valid_haplo\<close>\<close>
  | GroupingError       \<comment> \<open>\<^verbatim>\<open>ValueError\<close>: grouping produced no results\<close>
  | MissingRequired     \<comment> \<open>\<^verbatim>\<open>ValueError\<close>: a required output column is missing\<close>

definition age_bin_lower :: "rat option \<Rightarrow> int option" where
  \<comment> \<open>\<^verbatim>\<open>(np.floor(age / 1000) * 1000).astype('Int64')\<close>; NaN becomes \<^verbatim>\<open><NA>\<close>.\<close>
  "age_bin_lower a = map_option (\<lambda>x. \<lfloor>x / 1000\<rfloor> * 1000) a"

definition int64_str :: "int option \<Rightarrow> string" where
  \<comment> \<open>\<^verbatim>\<open>.astype(str)\<close> on a nullable integer column: a missing value is rendered as the
      text \<^verbatim>\<open><NA>\<close>.\<close>
  "int64_str v = (case v of None \<Rightarrow> ''<NA>'' | Some i \<Rightarrow> str_int i)"

definition binned_age_of :: "rat option \<Rightarrow> string" where
  "binned_age_of a =
     (let lo = age_bin_lower a
      in int64_str lo @ ''-'' @ int64_str (map_option (\<lambda>l. l + 1000) lo) @ '' BP'')"

definition add_group_columns :: "sample \<Rightarrow> row" where
  "add_group_columns s =
     \<lparr>political_entity = political_entity s, age_numeric = age_numeric s,
      lat_numeric = lat_numeric s, long_numeric = long_numeric s, haplo = haplo s,
      binned_age = binned_age_of (age_numeric s),
      ancient_pop_name = political_entity s @ '' '' @ binned_age_of (age_numeric s)\<rparr>"

definition preprocess :: "sample list \<Rightarrow> error + row list" where
  "preprocess df =
     (if list_all (\<lambda>s. age_numeric s = None) df then Inl NoValidAge
      else Inr (map add_group_columns df))"

subsection \<open>pandas primitives: \<^verbatim>\<open>groupby(...).size()\<close>, \<^verbatim>\<open>pivot_table\<close>, \<^verbatim>\<open>mean\<close>\<close>

type_synonym group_key = "string \<times> string \<times> string"

definition group_cols :: "row \<Rightarrow> group_key" where
  \<comment> \<open>\<^verbatim>\<open>group_keys = ["Ancient pop name", col_country, "binned_age"]\<close>\<close>
  "group_cols r = (ancient_pop_name r, political_entity r, binned_age r)"

definition groupby_size :: "('k::linorder) list \<Rightarrow> ('k \<times> nat) list" where
  \<comment> \<open>One line per distinct key, in key order, with the number of rows that carry it.\<close>
  "groupby_size ks = map (\<lambda>k. (k, length (filter (\<lambda>x. x = k) ks))) (sort (remdups ks))"

definition count_entries :: "('k \<times> nat) list \<Rightarrow> ('k \<times> rat) list" where
  "count_entries g = map (\<lambda>e. (fst e, of_nat (snd e))) g"

definition pivot_index :: "(('i::linorder \<times> 'c) \<times> rat) list \<Rightarrow> 'i list" where
  "pivot_index es = sort (remdups (map (\<lambda>e. fst (fst e)) es))"

definition pivot_columns :: "(('i \<times> 'c::linorder) \<times> rat) list \<Rightarrow> 'c list" where
  "pivot_columns es = sort (remdups (map (\<lambda>e. snd (fst e)) es))"

definition pivot_value :: "(('i \<times> 'c) \<times> rat) list \<Rightarrow> 'i \<Rightarrow> 'c \<Rightarrow> rat" where
  \<comment> \<open>\<^verbatim>\<open>pivot_table(index=, columns=, values=, fill_value=0)\<close>: the default \<^verbatim>\<open>aggfunc\<close> is the
      mean of the values that share an (index, column) pair; a pair with no value is 0.\<close>
  "pivot_value es i c =
     (let vs = map snd (filter (\<lambda>e. fst e = (i, c)) es)
      in if vs = [] then 0 else sum_list vs / of_nat (length vs))"

definition mean_skipna :: "rat option list \<Rightarrow> rat option" where
  \<comment> \<open>\<^verbatim>\<open>mean()\<close> of a group: NaN cells are skipped; a group without numbers gives NaN.\<close>
  "mean_skipna vs =
     (let xs = concat (map (\<lambda>v. case v of None \<Rightarrow> [] | Some x \<Rightarrow> [x]) vs)
      in if xs = [] then None else Some (sum_list xs / of_nat (length xs)))"

definition fillna0 :: "rat option \<Rightarrow> rat" where
  "fillna0 v = (case v of None \<Rightarrow> 0 | Some x \<Rightarrow> x)"

definition pct_where :: "rat \<Rightarrow> rat \<Rightarrow> rat" where
  \<comment> \<open>\<^verbatim>\<open>np.where(den > 0, num / den * 100, 0.0)\<close>\<close>
  "pct_where num den = (if den > 0 then num / den * 100 else 0)"

subsection \<open>\<^verbatim>\<open>make_haplo_table\<close>: counts and percentages\<close>

definition filter_invalid_patterns :: "row list \<Rightarrow> row list" where
  "filter_invalid_patterns df = filter (\<lambda>r. strip (haplo r) \<notin> set invalid_patterns) df"

definition df_valid :: "row list \<Rightarrow> row list" where
  "df_valid df = filter (\<lambda>r. is_valid_haplo (haplo r)) (filter_invalid_patterns df)"

definition basal_keys :: "row list \<Rightarrow> (group_key \<times> string) list" where
  \<comment> \<open>The grouping key (group, \<^verbatim>\<open>haplo_basal\<close>) of each row; \<^verbatim>\<open>groupby\<close> drops a row whose
      key is NaN.\<close>
  "basal_keys dv =
     concat (map (\<lambda>r. case haplo_basal_of (haplo r) of None \<Rightarrow> [] | Some b \<Rightarrow> [(group_cols r, b)]) dv)"

definition grouped_basal :: "row list \<Rightarrow> ((group_key \<times> string) \<times> nat) list" where
  "grouped_basal dv = groupby_size (basal_keys dv)"

definition groups :: "row list \<Rightarrow> group_key list" where
  \<comment> \<open>The index of \<^verbatim>\<open>pivot_basal\<close>: the rows of the output table.\<close>
  "groups dv = pivot_index (count_entries (grouped_basal dv))"

definition basal_letters :: "row list \<Rightarrow> string list" where
  "basal_letters dv = pivot_columns (count_entries (grouped_basal dv))"

definition count_basal :: "row list \<Rightarrow> group_key \<Rightarrow> string \<Rightarrow> rat" where
  "count_basal dv g b = pivot_value (count_entries (grouped_basal dv)) g b"

definition total_count :: "row list \<Rightarrow> group_key \<Rightarrow> rat" where
  \<comment> \<open>\<^verbatim>\<open>pivot_basal_counts.sum(axis=1)\<close>, and the first \<^verbatim>\<open>pivot_basal["Total"]\<close>.\<close>
  "total_count dv g = sum_list (map (count_basal dv g) (basal_letters dv))"

definition basal_pct :: "row list \<Rightarrow> group_key \<Rightarrow> string \<Rightarrow> rat" where
  "basal_pct dv g b = pct_where (count_basal dv g b) (total_count dv g)"

definition sub_keys :: "row list \<Rightarrow> (group_key \<times> string \<times> string) list" where
  \<comment> \<open>The key (group, \<^verbatim>\<open>haplo_basal\<close>, \<^verbatim>\<open>haplo_sub\<close>) of each row that has a subclade.\<close>
  "sub_keys dv =
     concat (map (\<lambda>r. case parse_subclade (haplo r) of
                        None \<Rightarrow> []
                      | Some s \<Rightarrow> (case haplo_basal_of (haplo r) of
                                    None \<Rightarrow> []
                                  | Some b \<Rightarrow> [(group_cols r, b, s)])) dv)"

definition grouped_sub :: "row list \<Rightarrow> ((group_key \<times> string \<times> string) \<times> nat) list" where
  "grouped_sub dv = groupby_size (sub_keys dv)"

definition sub_entries :: "row list \<Rightarrow> ((group_key \<times> string) \<times> rat) list" where
  \<comment> \<open>The lines of \<^verbatim>\<open>grouped_sub\<close> as \<^verbatim>\<open>pivot_table\<close> reads them: index = group,
      columns = \<^verbatim>\<open>haplo_sub\<close>, values = \<^verbatim>\<open>Count_sub\<close>; \<^verbatim>\<open>haplo_basal\<close> is not a key of the pivot.\<close>
  "sub_entries dv = map (\<lambda>e. ((fst (fst e), snd (snd (fst e))), of_nat (snd e))) (grouped_sub dv)"

definition subclade_cols :: "row list \<Rightarrow> string list" where
  "subclade_cols dv = pivot_columns (sub_entries dv)"

definition sub_cell :: "row list \<Rightarrow> group_key \<Rightarrow> string \<Rightarrow> rat option" where
  \<comment> \<open>The subclade count cell after the left merge onto \<^verbatim>\<open>pivot_basal\<close>: NaN for a group
      that has no line in \<^verbatim>\<open>pivot_sub\<close>.\<close>
  "sub_cell dv g s =
     (if g \<in> set (pivot_index (sub_entries dv)) then Some (pivot_value (sub_entries dv) g s)
      else None)"

definition total :: "row list \<Rightarrow> group_key \<Rightarrow> rat" where
  \<comment> \<open>Step 9: \<^verbatim>\<open>Total = Total_count\<close>, then \<^verbatim>\<open>+= merged_df[subclade_cols].sum(axis=1)\<close>
      (NaN skipped) when there are subclade columns.\<close>
  "total dv g =
     (if subclade_cols dv \<noteq> []
      then total_count dv g + sum_list (map (\<lambda>s. fillna0 (sub_cell dv g s)) (subclade_cols dv))
      else total_count dv g)"

definition parent_letter :: "string \<Rightarrow> string" where
  \<comment> \<open>\<^verbatim>\<open>sc[0].upper()\<close>\<close>
  "parent_letter sc = upper (take 1 sc)"

definition has_parent_count :: "row list \<Rightarrow> string \<Rightarrow> bool" where
  \<comment> \<open>The column \<^verbatim>\<open>parent_letter + "_count"\<close> exists in \<^verbatim>\<open>merged_df\<close>: the parent letter is a
      column of \<^verbatim>\<open>pivot_basal_counts\<close>.\<close>
  "has_parent_count dv sc = (parent_letter sc \<in> set (basal_letters dv))"

definition sub_pct :: "row list \<Rightarrow> group_key \<Rightarrow> string \<Rightarrow> rat" where
  \<comment> \<open>Step 10. A missing parent column raises \<^verbatim>\<open>KeyError\<close>; the handler sets the whole
      subclade column to 0.0.\<close>
  "sub_pct dv g sc =
     (if has_parent_count dv sc
      then pct_where (fillna0 (sub_cell dv g sc)) (count_basal dv g (parent_letter sc))
      else 0)"

definition coord_mean :: "row list \<Rightarrow> (row \<Rightarrow> rat option) \<Rightarrow> group_key \<Rightarrow> rat option" where
  \<comment> \<open>Step 11: \<^verbatim>\<open>df_valid.groupby(group_cols)[[...]].mean()\<close>, one column.\<close>
  "coord_mean dv col g = mean_skipna (map col (filter (\<lambda>r. group_cols r = g) dv))"

subsection \<open>\<^verbatim>\<open>make_haplo_table\<close>: age label, column order, formatting\<close>

definition round_half_even :: "rat \<Rightarrow> int" where
  \<comment> \<open>\<^verbatim>\<open>.round()\<close> of numpy: to the nearest integer, a tie to the even one.\<close>
  "round_half_even x =
     (let f = \<lfloor>x\<rfloor>; d = x - of_int f
      in if d < 1 / 2 then f else if 1 / 2 < d then f + 1 else if even f then f else f + 1)"

definition format_calendar_year :: "int \<Rightarrow> string" where
  "format_calendar_year year =
     (if year > 0 then str_int year @ '' CE''
      else if year < 0 then str_int \<bar>year\<bar> @ '' BCE''
      else ''0 CE'')"

definition age_column :: "row list \<Rightarrow> group_key \<Rightarrow> string" where
  \<comment> \<open>Step 13. \<^verbatim>\<open>(1950 - age).round().astype(int)\<close> is one operation on the whole column:
      a NaN mean age in any line raises, and the handler sets every \<^verbatim>\<open>Age\<close> to
      \<^verbatim>\<open>Unknown\<close>.\<close>
  "age_column dv g =
     (if list_ex (\<lambda>g'. coord_mean dv age_numeric g' = None) (groups dv) then ''Unknown''
      else format_calendar_year (round_half_even (1950 - fillna0 (coord_mean dv age_numeric g))))"

definition base_cols :: "string list" where
  "base_cols = [''Ancient pop name'', ''Country'', ''Age'', ''Lat'', ''Long'']"

definition startswith :: "string \<Rightarrow> string \<Rightarrow> bool" where
  \<comment> \<open>\<^verbatim>\<open>sc.startswith(b)\<close>\<close>
  "startswith sc b = (take (length b) sc = b)"

definition related_subs :: "row list \<Rightarrow> string \<Rightarrow> string list" where
  "related_subs dv b = sort (filter (\<lambda>sc. startswith sc b) (subclade_cols dv))"

definition haplo_order :: "row list \<Rightarrow> string list" where
  \<comment> \<open>\<^verbatim>\<open>final_order_of_haplos\<close> before \<^verbatim>\<open>"Total"\<close> is appended.\<close>
  "haplo_order dv = concat (map (\<lambda>b. b # related_subs dv b) (sort (basal_letters dv)))"

definition final_order_of_haplos :: "row list \<Rightarrow> string list" where
  "final_order_of_haplos dv = haplo_order dv @ [''Total'']"

definition merged_columns :: "row list \<Rightarrow> string list" where
  \<comment> \<open>The columns of \<^verbatim>\<open>merged_df\<close> when the final order is applied.\<close>
  "merged_columns dv =
     [''Ancient pop name'', ''Country''] @ basal_letters dv @ [''Total''] @ subclade_cols dv
     @ map (\<lambda>b. b @ ''_count'') (basal_letters dv) @ [''Total_count'', ''Lat'', ''Long'', ''Age'']"

definition final_cols :: "row list \<Rightarrow> string list" where
  "final_cols dv = filter (\<lambda>c. c \<in> set (merged_columns dv)) (base_cols @ final_order_of_haplos dv)"

definition format_2f :: "rat \<Rightarrow> string" where
  \<comment> \<open>\<^verbatim>\<open>f"{x:.2f}"\<close>: sign, integer part, point, two decimals.\<close>
  "format_2f x =
     (let h = nat (round_half_even (\<bar>x\<bar> * 100))
      in (if x < 0 then ''-'' else []) @ str_nat (h div 100) @ ''.''
         @ [digit_char (h mod 100 div 10), digit_char (h mod 10)])"

definition format_pct :: "rat option \<Rightarrow> string" where
  \<comment> \<open>\<^verbatim>\<open>lambda x: f"{x:.2f}%" if pd.notna(x) else ""\<close>\<close>
  "format_pct v = (case v of None \<Rightarrow> [] | Some x \<Rightarrow> format_2f x @ ''%'')"

definition astype_int :: "rat \<Rightarrow> int" where
  \<comment> \<open>\<^verbatim>\<open>.astype(int)\<close> on a float column truncates towards zero.\<close>
  "astype_int x = (if x < 0 then \<lceil>x\<rceil> else \<lfloor>x\<rfloor>)"

definition haplo_value :: "row list \<Rightarrow> group_key \<Rightarrow> string \<Rightarrow> rat option" where
  \<comment> \<open>The number in a haplogroup column of \<^verbatim>\<open>merged_df\<close> before formatting: step 10
      overwrites the subclade columns, the basal columns keep the percentages of step 5.\<close>
  "haplo_value dv g c =
     (if c \<in> set (subclade_cols dv) then Some (sub_pct dv g c) else Some (basal_pct dv g c))"

record table_row =
  pop_name :: string
  country :: string
  age :: string
  lat :: "rat option"
  long :: "rat option"
  haplo_cells :: "(string \<times> string) list"
  total_cell :: int

record table =
  columns :: "string list"
  rows :: "table_row list"

definition make_row :: "row list \<Rightarrow> group_key \<Rightarrow> table_row" where
  "make_row dv g =
     \<lparr>pop_name = fst g, country = fst (snd g), age = age_column dv g,
      lat = coord_mean dv lat_numeric g, long = coord_mean dv long_numeric g,
      haplo_cells = map (\<lambda>c. (c, format_pct (haplo_value dv g c)))
                        (filter (\<lambda>c. c \<in> set (merged_columns dv)) (haplo_order dv)),
      total_cell = astype_int (total dv g)\<rparr>"

datatype warning =
    ZeroTotal                \<comment> \<open>some rows have a total count of 0\<close>
  | NoSubclades              \<comment> \<open>no valid subclade haplogroups found\<close>
  | SubcladeFailed string    \<comment> \<open>error processing a subclade column; values set to 0\<close>
  | AgeUnknown               \<comment> \<open>error calculating calendar years\<close>

definition zero_total_warning :: "rat list \<Rightarrow> warning list" where
  \<comment> \<open>Step 5: \<^verbatim>\<open>if (pivot_basal["Total"] == 0).any(): print("Warning: ...")\<close>, on the
      \<^verbatim>\<open>Total\<close> column.\<close>
  "zero_total_warning totals = (if list_ex (\<lambda>t. t = 0) totals then [ZeroTotal] else [])"

definition warnings :: "row list \<Rightarrow> warning list" where
  "warnings dv =
     zero_total_warning (map (total_count dv) (groups dv))
     @ (if sub_keys dv = [] then [NoSubclades] else [])
     @ map SubcladeFailed (filter (\<lambda>sc. \<not> has_parent_count dv sc) (subclade_cols dv))
     @ (if list_ex (\<lambda>g. coord_mean dv age_numeric g = None) (groups dv) then [AgeUnknown] else [])"

definition make_haplo_table :: "row list \<Rightarrow> error + (warning list \<times> table)" where
  "make_haplo_table df =
     (if filter_invalid_patterns df = [] then Inl NoValidEntries
      else if df_valid df = [] then Inl NoPatternEntries
      else if grouped_basal (df_valid df) = [] then Inl GroupingError
      else if \<not> list_all (\<lambda>c. c \<in> set (final_cols (df_valid df)))
                          [''Ancient pop name'', ''Country'', ''Total'']
           then Inl MissingRequired
      else Inr (warnings (df_valid df),
                \<lparr>columns = final_cols (df_valid df),
                 rows = map (make_row (df_valid df)) (groups (df_valid df))\<rparr>))"

definition run :: "sample list \<Rightarrow> error + (warning list \<times> table)" where
  \<comment> \<open>\<^verbatim>\<open>main\<close> for one haplogroup column: preprocessing, the blank-column check, the table.\<close>
  "run df =
     (case preprocess df of
        Inl e \<Rightarrow> Inl e
      | Inr d \<Rightarrow> if list_all (\<lambda>r. strip (haplo r) = []) d then Inl NoHaploInfo
                else make_haplo_table d)"

subsection \<open>Notions used in the statements\<close>

text \<open>
  The valid records of a group, and the records among a list that carry a given basal
  letter or subclade, in the words of the specification: a record is valid when its code
  satisfies \<^const>\<open>spec_valid\<close>.
\<close>

definition valid_records :: "row list \<Rightarrow> group_key \<Rightarrow> row list" where
  "valid_records df g = filter (\<lambda>r. spec_valid (haplo r) \<and> group_cols r = g) df"

definition with_basal :: "string \<Rightarrow> row list \<Rightarrow> row list" where
  "with_basal b rs = filter (\<lambda>r. haplo_basal_of (haplo r) = Some b) rs"

definition with_subclade :: "string \<Rightarrow> row list \<Rightarrow> row list" where
  "with_subclade s rs = filter (\<lambda>r. parse_subclade (haplo r) = Some s) rs"

definition with_any_subclade :: "row list \<Rightarrow> row list" where
  "with_any_subclade rs = filter (\<lambda>r. parse_subclade (haplo r) \<noteq> None) rs"

definition defined_values :: "(row \<Rightarrow> rat option) \<Rightarrow> row list \<Rightarrow> rat list" where
  \<comment> \<open>The numbers of a column, missing cells left out.\<close>
  "defined_values col rs = concat (map (\<lambda>r. case col r of None \<Rightarrow> [] | Some x \<Rightarrow> [x]) rs)"

definition leading_space :: "string \<Rightarrow> bool" where
  \<comment> \<open>The raw cell starts with a whitespace character.\<close>
  "leading_space h = (case h of [] \<Rightarrow> False | c # _ \<Rightarrow> isspace c)"

definition sub_proj :: "group_key \<times> string \<times> string \<Rightarrow> group_key \<times> string" where
  \<comment> \<open>The (index, column) pair under which \<^verbatim>\<open>pivot_table\<close> files a line of \<^verbatim>\<open>grouped_sub\<close>.\<close>
  "sub_proj x = (fst x, snd (snd x))"

definition column_follows :: "string \<Rightarrow> string \<Rightarrow> bool" where
  \<comment> \<open>Column \<open>c\<close> may stand directly after column \<open>p\<close>: a subclade column (two characters)
      after its own basal letter or after a smaller subclade of the same letter; a basal
      column (one character) after a column of a smaller letter.\<close>
  "column_follows p c =
     (if length c = 2
      then p = take 1 c \<or> (length p = 2 \<and> take 1 p = take 1 c \<and> p < c)
      else take 1 p < c)"

subsection \<open>Example inputs\<close>

definition mk_sample :: "string \<Rightarrow> rat option \<Rightarrow> rat option \<Rightarrow> rat option \<Rightarrow> string \<Rightarrow> sample" where
  "mk_sample e a la lo h =
     \<lparr>political_entity = e, age_numeric = a, lat_numeric = la, long_numeric = lo, haplo = h\<rparr>"

definition mk_row :: "string \<Rightarrow> rat option \<Rightarrow> rat option \<Rightarrow> rat option \<Rightarrow> string \<Rightarrow> row" where
  "mk_row e a la lo h = add_group_columns (mk_sample e a la lo h)"

definition gX :: group_key where
  "gX = (''X 0-1000 BP'', ''X'', ''0-1000 BP'')"

definition gY :: group_key where
  "gY = (''Y 0-1000 BP'', ''Y'', ''0-1000 BP'')"

definition gNA :: group_key where
  "gNA = (''Y <NA>-<NA> BP'', ''Y'', ''<NA>-<NA> BP'')"

definition ex_scenario :: "row list" where
  \<comment> \<open>The scenario of the specification: codes A1, A2 and B in one group.\<close>
  "ex_scenario =
     [mk_row ''X'' (Some 500) (Some 10) (Some 20) ''A1'',
      mk_row ''X'' (Some 500) (Some 30) None ''A2'',
      mk_row ''X'' (Some 500) None None ''B'']"

definition ex_placeholder :: "row list" where
  \<comment> \<open>One valid code and one placeholder in the same group.\<close>
  "ex_placeholder =
     [mk_row ''X'' (Some 500) (Some 10) (Some 20) ''A1'',
      mk_row ''X'' (Some 500) (Some 50) (Some 60) ''n/a'']"

definition ex_untrimmed :: "row list" where
  \<comment> \<open>Two cells \<^verbatim>\<open>A1\<close> and one cell with a leading blank.\<close>
  "ex_untrimmed =
     [mk_row ''X'' (Some 500) None None ''A1'',
      mk_row ''X'' (Some 500) None None ''A1'',
      mk_row ''X'' (Some 500) None None '' A1'']"


definition ex_two_groups :: "row list" where
  "ex_two_groups =
     [mk_row ''X'' (Some 500) None None ''A1'',
      mk_row ''Y'' (Some 500) None None ''B'']"



definition ex_missing_age :: "sample list" where
  "ex_missing_age =
     [mk_sample ''X'' (Some 500) None None ''A1'',
      mk_sample ''Y'' None None None ''B'']"

section \<open>Auxiliary facts\<close>

lemma filter_inj_distinct:
  assumes "distinct xs" "inj_on p (set xs)" "k \<in> set xs"
  shows "filter (\<lambda>x. p x = p k) xs = [k]"
  using assms
proof (induction xs)
  case Nil
  then show ?case by simp
next
  case (Cons a xs)
  show ?case
  proof (cases "a = k")
    case True
    have "\<forall>x\<in>set xs. p x \<noteq> p k"
      using Cons.prems True by (auto simp: inj_on_def)
    then have "filter (\<lambda>x. p x = p k) xs = []" by (simp add: filter_empty_conv)
    with True show ?thesis by simp
  next
    case False
    then have k: "k \<in> set xs" using Cons.prems by simp
    have "p a \<noteq> p k" using Cons.prems False by (auto simp: inj_on_def)
    moreover have "filter (\<lambda>x. p x = p k) xs = [k]"
      using Cons.IH Cons.prems k by (simp add: inj_on_def)
    ultimately show ?thesis by simp
  qed
qed

lemma set_groupby_keys: "set (map fst (groupby_size ks)) = set ks"
  by (simp add: groupby_size_def comp_def)

lemma map_fst_groupby: "map fst (groupby_size ks) = sort (remdups ks)"
  by (simp add: groupby_size_def comp_def)

lemma groupby_size_Nil_iff: "groupby_size ks = [] \<longleftrightarrow> ks = []"
  by (metis map_fst_groupby list.map_disc_iff set_empty set_remdups set_sort)

text \<open>pivot of counts, when the pivot key is injective on the grouping keys\<close>
lemma pivot_value_counts:
  assumes inj: "inj_on p (set ks)"
  shows "pivot_value (map (\<lambda>e. (p (fst e), of_nat (snd e))) (groupby_size ks)) i c
         = of_nat (length (filter (\<lambda>x. p x = (i, c)) ks))"
proof -
  let ?xs = "sort (remdups ks)"
  let ?cnt = "\<lambda>k. length (filter (\<lambda>x. x = k) ks)"
  let ?es = "map (\<lambda>e. (p (fst e), (of_nat (snd e) :: rat))) (groupby_size ks)"
  have es: "?es = map (\<lambda>k. (p k, of_nat (?cnt k))) ?xs"
    by (simp add: groupby_size_def comp_def)
  have dist: "distinct ?xs" and setxs: "set ?xs = set ks" by simp_all
  have fl: "filter (\<lambda>e. fst e = (i, c)) ?es
            = map (\<lambda>k. (p k, of_nat (?cnt k))) (filter (\<lambda>k. p k = (i, c)) ?xs)"
    unfolding es by (simp add: filter_map comp_def)
  show ?thesis
  proof (cases "\<exists>k\<in>set ks. p k = (i, c)")
    case False
    then have "filter (\<lambda>k. p k = (i, c)) ?xs = []" and "filter (\<lambda>x. p x = (i, c)) ks = []"
      by (auto simp: filter_empty_conv)
    then show ?thesis unfolding pivot_value_def fl by simp
  next
    case True
    then obtain k where k: "k \<in> set ks" "p k = (i, c)" by blast
    have "filter (\<lambda>x. p x = p k) ?xs = [k]"
      using filter_inj_distinct[of ?xs p k] dist inj k setxs by simp
    then have f1: "filter (\<lambda>x. p x = (i, c)) ?xs = [k]" using k by simp
    have "\<And>x. x \<in> set ks \<Longrightarrow> (x = k) = (p x = (i, c))"
      using inj k by (auto simp: inj_on_def)
    then have "filter (\<lambda>x. x = k) ks = filter (\<lambda>x. p x = (i, c)) ks"
      by (intro filter_cong) auto
    then show ?thesis unfolding pivot_value_def fl f1 by simp
  qed
qed

lemma sort_remdups_cong: "set xs = set ys \<Longrightarrow> sort (remdups xs) = sort (remdups ys)"
proof -
  assume "set xs = set ys"
  then have "sorted_list_of_set (set xs) = sorted_list_of_set (set ys)" by simp
  then show ?thesis by (simp only: sorted_list_of_set_sort_remdups)
qed

lemma pivot_index_groupby:
  "pivot_index (map (\<lambda>e. ((f (fst e), h (fst e)), of_nat (snd e))) (groupby_size ks)) = sort (remdups (map f ks))"
proof -
  have "set (map (\<lambda>e. fst (fst e)) (map (\<lambda>e. ((f (fst e), h (fst e)), (of_nat (snd e)::rat))) (groupby_size ks)))
        = set (map f ks)"
    by (simp add: groupby_size_def comp_def image_image)
  then show ?thesis unfolding pivot_index_def by (rule sort_remdups_cong)
qed

lemma pivot_columns_groupby:
  "pivot_columns (map (\<lambda>e. ((f (fst e), h (fst e)), of_nat (snd e))) (groupby_size ks)) = sort (remdups (map h ks))"
proof -
  have "set (map (\<lambda>e. snd (fst e)) (map (\<lambda>e. ((f (fst e), h (fst e)), (of_nat (snd e)::rat))) (groupby_size ks)))
        = set (map h ks)"
    by (simp add: groupby_size_def comp_def image_image)
  then show ?thesis unfolding pivot_columns_def by (rule sort_remdups_cong)
qed

lemma sum_list_count_partition:
  assumes "distinct bs" "\<And>x. x \<in> set ks \<Longrightarrow> P x \<Longrightarrow> f x \<in> set bs"
  shows "(\<Sum>b\<leftarrow>bs. length (filter (\<lambda>x. P x \<and> f x = b) ks)) = length (filter P ks)"
  using assms(2)
proof (induction ks)
  case Nil
  then show ?case by simp
next
  case (Cons a ks)
  have IH: "(\<Sum>b\<leftarrow>bs. length (filter (\<lambda>x. P x \<and> f x = b) ks)) = length (filter P ks)"
    using Cons by simp
  have split: "(\<Sum>b\<leftarrow>bs. length (filter (\<lambda>x. P x \<and> f x = b) (a # ks)))
        = (\<Sum>b\<leftarrow>bs. (if P a \<and> f a = b then 1 else 0)) + (\<Sum>b\<leftarrow>bs. length (filter (\<lambda>x. P x \<and> f x = b) ks))"
  proof -
    have "\<And>b. length (filter (\<lambda>x. P x \<and> f x = b) (a # ks))
        = (if P a \<and> f a = b then 1 else 0) + length (filter (\<lambda>x. P x \<and> f x = b) ks)"
      by simp
    then have "(\<Sum>b\<leftarrow>bs. length (filter (\<lambda>x. P x \<and> f x = b) (a # ks)))
        = (\<Sum>b\<leftarrow>bs. (if P a \<and> f a = b then 1 else 0) + length (filter (\<lambda>x. P x \<and> f x = b) ks))"
      by presburger
    then show ?thesis by (simp only: sum_list_addf)
  qed
  have ind: "(\<Sum>b\<leftarrow>bs. (if P a \<and> f a = b then 1 else 0)) = (if P a then (1::nat) else 0)"
  proof (cases "P a")
    case False then show ?thesis by simp
  next
    case True
    then have "f a \<in> set bs" using Cons.prems by simp
    have "(\<Sum>b\<leftarrow>bs. (if f a = b then 1 else 0)) = (\<Sum>b\<in>set bs. (if f a = b then (1::nat) else 0))"
      using assms(1) by (simp add: sum_list_distinct_conv_sum_set)
    also have "\<dots> = 1" using \<open>f a \<in> set bs\<close> by simp
    finally show ?thesis using True by simp
  qed
  show ?case unfolding split ind IH by simp
qed



lemma in_dropWhile: "c \<in> set s \<Longrightarrow> \<not> P c \<Longrightarrow> c \<in> set (dropWhile P s)"
  by (induction s) auto

lemma strip_Nil [simp]: "strip [] = []"
  by (simp add: strip_def)

lemma is_valid_haplo_nonempty: "is_valid_haplo h \<Longrightarrow> h \<noteq> []"
  by (auto simp: is_valid_haplo_def Let_def)

lemma df_valid_filter: "df_valid df = filter (\<lambda>r. passes_filters (haplo r)) df"
  by (simp add: df_valid_def filter_invalid_patterns_def passes_filters_def conj_commute)

lemma passes_filters_spec: "passes_filters h = spec_valid h"
  by (auto simp: passes_filters_def spec_valid_def is_valid_haplo_def invalid_patterns_def Let_def)

lemma df_valid_nonempty_haplo: "r \<in> set (df_valid df) \<Longrightarrow> haplo r \<noteq> []"
  by (auto simp: df_valid_def is_valid_haplo_nonempty)

lemma haplo_basal_of_Some: "h \<noteq> [] \<Longrightarrow> haplo_basal_of h = Some [upper_char (hd h)]"
  by (cases h) (simp_all add: haplo_basal_of_def)

lemma basal_keys_count:
  "length (filter (\<lambda>x. x = (g, b)) (basal_keys dv))
   = length (filter (\<lambda>r. group_cols r = g \<and> haplo_basal_of (haplo r) = Some b) dv)"
  by (induction dv) (auto simp: basal_keys_def split: option.splits)

lemma basal_keys_fst_count:
  "length (filter (\<lambda>x. fst x = g) (basal_keys dv))
   = length (filter (\<lambda>r. group_cols r = g \<and> haplo_basal_of (haplo r) \<noteq> None) dv)"
  by (induction dv) (auto simp: basal_keys_def split: option.splits)

lemma count_entries_alt:
  "count_entries es = map (\<lambda>e. ((fst (fst e), snd (fst e)), of_nat (snd e))) es"
  by (simp add: count_entries_def)

lemma groups_eq: "groups dv = sort (remdups (map fst (basal_keys dv)))"
  unfolding groups_def grouped_basal_def count_entries_alt by (rule pivot_index_groupby)

lemma basal_letters_eq: "basal_letters dv = sort (remdups (map snd (basal_keys dv)))"
  unfolding basal_letters_def grouped_basal_def count_entries_alt by (rule pivot_columns_groupby)

lemma count_basal_eq:
  "count_basal dv g b
   = of_nat (length (filter (\<lambda>r. group_cols r = g \<and> haplo_basal_of (haplo r) = Some b) dv))"
proof -
  have "count_basal dv g b = of_nat (length (filter (\<lambda>x. id x = (g, b)) (basal_keys dv)))"
    unfolding count_basal_def grouped_basal_def count_entries_def
    using pivot_value_counts[of id "basal_keys dv" g b] by simp
  then show ?thesis by (simp add: basal_keys_count)
qed

lemma of_nat_sum_list_rat: "(of_nat (sum_list (map f xs)) :: rat) = sum_list (map (\<lambda>x. of_nat (f x)) xs)"
  by (induction xs) simp_all

lemma total_count_eq:
  "total_count dv g
   = of_nat (length (filter (\<lambda>r. group_cols r = g \<and> haplo_basal_of (haplo r) \<noteq> None) dv))"
proof -
  let ?ks = "basal_keys dv"
  let ?bs = "basal_letters dv"
  have d: "distinct ?bs" by (simp add: basal_letters_eq)
  have cover: "\<And>x. x \<in> set ?ks \<Longrightarrow> fst x = g \<Longrightarrow> snd x \<in> set ?bs"
    by (simp add: basal_letters_eq)
  have "count_basal dv g = (\<lambda>b. of_nat (length (filter (\<lambda>x. x = (g, b)) ?ks)))"
    by (rule ext) (simp add: count_basal_eq basal_keys_count)
  then have "total_count dv g = (\<Sum>b\<leftarrow>?bs. of_nat (length (filter (\<lambda>x. x = (g, b)) ?ks)))"
    unfolding total_count_def by simp
  also have "\<dots> = of_nat (\<Sum>b\<leftarrow>?bs. length (filter (\<lambda>x. fst x = g \<and> snd x = b) ?ks))"
    by (simp add: prod_eq_iff of_nat_sum_list_rat)
  also have "\<dots> = of_nat (length (filter (\<lambda>x. fst x = g) ?ks))"
    using sum_list_count_partition[of ?bs ?ks "\<lambda>x. fst x = g" snd, OF d cover] by simp
  finally show ?thesis by (simp add: basal_keys_fst_count)
qed

lemma total_count_valid:
  "total_count (df_valid df) g
   = of_nat (length (filter (\<lambda>r. passes_filters (haplo r) \<and> group_cols r = g) df))"
proof -
  have "filter (\<lambda>r. group_cols r = g \<and> haplo_basal_of (haplo r) \<noteq> None) (df_valid df)
        = filter (\<lambda>r. group_cols r = g) (df_valid df)"
    by (rule filter_cong) (auto simp: haplo_basal_of_Some dest: df_valid_nonempty_haplo)
  then show ?thesis
    by (simp add: total_count_eq df_valid_filter conj_commute)
qed




lemma strip_prefix: "\<exists>zs. dropWhile isspace s = strip s @ zs"
proof -
  let ?ys = "dropWhile isspace s"
  have "rev (rev ?ys) = rev (takeWhile isspace (rev ?ys) @ dropWhile isspace (rev ?ys))" by simp
  then have "?ys = strip s @ rev (takeWhile isspace (rev ?ys))"
    unfolding strip_def rev_append rev_rev_ident .
  then show ?thesis by blast
qed

lemma strip_nonempty_iff: "strip s \<noteq> [] \<longleftrightarrow> (\<exists>c \<in> set s. \<not> isspace c)"
  by (auto simp: strip_def dropWhile_eq_Nil_conv dest: set_dropWhileD in_dropWhile)

lemma strip_no_lead:
  assumes "s \<noteq> []" "\<not> isspace (hd s)"
  shows "strip s \<noteq> [] \<and> hd (strip s) = hd s"
proof -
  have ne: "strip s \<noteq> []" using assms by (cases s) (auto simp: strip_nonempty_iff)
  obtain zs where "dropWhile isspace s = strip s @ zs" using strip_prefix by blast
  moreover have "dropWhile isspace s = s" using assms by (cases s) auto
  ultimately have "s = strip s @ zs" by simp
  with ne have "hd s = hd (strip s)" by (metis hd_append2)
  with ne show ?thesis by simp
qed

lemma parse_subclade_Some:
  "parse_subclade h = Some s \<Longrightarrow> 2 \<le> length (strip h) \<and> s = upper (take 2 (strip h))"
  by (auto simp: parse_subclade_def Let_def split: if_splits)

lemma take1_upper_take2: "2 \<le> length x \<Longrightarrow> take 1 (upper (take 2 x)) = [upper_char (hd x)]"
  by (cases x) (auto simp: upper_def)

lemma sub_parent_consistent:
  assumes "\<not> leading_space h" "parse_subclade h = Some s"
  shows "haplo_basal_of h = Some (take 1 s)"
proof -
  from assms(2) have len: "2 \<le> length (strip h)" and s: "s = upper (take 2 (strip h))"
    using parse_subclade_Some by blast+
  then have "h \<noteq> []" by auto
  moreover from this assms(1) have "\<not> isspace (hd h)" by (cases h) (auto simp: leading_space_def)
  ultimately have "hd (strip h) = hd h" using strip_no_lead by blast
  then have "take 1 s = [upper_char (hd h)]" using take1_upper_take2[OF len] s by simp
  with \<open>h \<noteq> []\<close> show ?thesis by (simp add: haplo_basal_of_Some)
qed

lemma sub_keys_mem:
  "(g, b, s) \<in> set (sub_keys dv) \<longleftrightarrow>
   (\<exists>r\<in>set dv. group_cols r = g \<and> haplo_basal_of (haplo r) = Some b \<and> parse_subclade (haplo r) = Some s)"
  by (induction dv) (auto simp: sub_keys_def split: option.splits)

lemma sub_keys_count:
  "length (filter (\<lambda>x. sub_proj x = (g, s)) (sub_keys dv))
   = length (filter (\<lambda>r. group_cols r = g \<and> parse_subclade (haplo r) = Some s
                          \<and> haplo_basal_of (haplo r) \<noteq> None) dv)"
  by (induction dv) (auto simp: sub_keys_def sub_proj_def split: option.splits)

lemma sub_keys_fst_count:
  "length (filter (\<lambda>x. fst x = g) (sub_keys dv))
   = length (filter (\<lambda>r. group_cols r = g \<and> parse_subclade (haplo r) \<noteq> None
                          \<and> haplo_basal_of (haplo r) \<noteq> None) dv)"
  by (induction dv) (auto simp: sub_keys_def split: option.splits)

lemma sub_entries_alt:
  "sub_entries dv = map (\<lambda>e. (sub_proj (fst e), of_nat (snd e))) (groupby_size (sub_keys dv))"
  by (simp add: sub_entries_def grouped_sub_def sub_proj_def)

lemma sub_entries_alt2:
  "sub_entries dv = map (\<lambda>e. ((fst (fst e), (snd \<circ> snd) (fst e)), of_nat (snd e))) (groupby_size (sub_keys dv))"
  by (simp add: sub_entries_def grouped_sub_def)

lemma sub_index_eq: "pivot_index (sub_entries dv) = sort (remdups (map fst (sub_keys dv)))"
  unfolding sub_entries_alt2 by (rule pivot_index_groupby)

lemma subclade_cols_eq: "subclade_cols dv = sort (remdups (map (snd \<circ> snd) (sub_keys dv)))"
  unfolding subclade_cols_def sub_entries_alt2 by (rule pivot_columns_groupby)

lemma sub_proj_inj:
  assumes "\<And>r. r \<in> set dv \<Longrightarrow> \<not> leading_space (haplo r)"
  shows "inj_on sub_proj (set (sub_keys dv))"
proof (rule inj_onI)
  fix x y assume x: "x \<in> set (sub_keys dv)" and y: "y \<in> set (sub_keys dv)" and e: "sub_proj x = sub_proj y"
  obtain g b s where xx: "x = (g, b, s)" by (cases x) auto
  obtain g' b' s' where yy: "y = (g', b', s')" by (cases y) auto
  from x xx have "(g, b, s) \<in> set (sub_keys dv)" by simp
  then obtain r where r: "r \<in> set dv" "haplo_basal_of (haplo r) = Some b" "parse_subclade (haplo r) = Some s"
    unfolding sub_keys_mem by blast
  have "haplo_basal_of (haplo r) = Some (take 1 s)"
    using assms[OF r(1)] r(3) by (rule sub_parent_consistent)
  with r(2) have b: "b = take 1 s" by simp
  from y yy have "(g', b', s') \<in> set (sub_keys dv)" by simp
  then obtain r' where r': "r' \<in> set dv" "haplo_basal_of (haplo r') = Some b'" "parse_subclade (haplo r') = Some s'"
    unfolding sub_keys_mem by blast
  have "haplo_basal_of (haplo r') = Some (take 1 s')"
    using assms[OF r'(1)] r'(3) by (rule sub_parent_consistent)
  with r'(2) have b': "b' = take 1 s'" by simp
  from e xx yy have "g = g'" "s = s'" by (simp_all add: sub_proj_def)
  with b b' xx yy show "x = y" by simp
qed

lemma sub_value_eq:
  assumes "\<And>r. r \<in> set dv \<Longrightarrow> \<not> leading_space (haplo r)"
  shows "pivot_value (sub_entries dv) g s
         = of_nat (length (filter (\<lambda>r. group_cols r = g \<and> parse_subclade (haplo r) = Some s
                          \<and> haplo_basal_of (haplo r) \<noteq> None) dv))"
proof -
  have "inj_on sub_proj (set (sub_keys dv))" using assms by (rule sub_proj_inj)
  then show ?thesis
    unfolding sub_entries_alt
    using pivot_value_counts[where p = sub_proj and ks = "sub_keys dv" and i = g and c = s]
    by (simp add: sub_keys_count)
qed

lemma sub_value_absent:
  assumes "\<And>r. r \<in> set dv \<Longrightarrow> group_cols r = g \<Longrightarrow> parse_subclade (haplo r) \<noteq> Some s"
  shows "pivot_value (sub_entries dv) g s = 0"
proof -
  have "\<And>e. e \<in> set (groupby_size (sub_keys dv)) \<Longrightarrow> sub_proj (fst e) \<noteq> (g, s)"
  proof
    fix e assume e: "e \<in> set (groupby_size (sub_keys dv))" and p: "sub_proj (fst e) = (g, s)"
    from e have "fst e \<in> set (map fst (groupby_size (sub_keys dv)))" by simp
    then have "fst e \<in> set (sub_keys dv)" by (simp only: set_groupby_keys)
    moreover obtain b where "fst e = (g, b, s)" using p by (cases "fst e") (auto simp: sub_proj_def)
    ultimately have "(g, b, s) \<in> set (sub_keys dv)" by simp
    then obtain r where "r \<in> set dv" "group_cols r = g" "parse_subclade (haplo r) = Some s"
      unfolding sub_keys_mem by blast
    then show False using assms by blast
  qed
  then have "filter (\<lambda>e. fst e = (g, s)) (sub_entries dv) = []"
    unfolding sub_entries_alt by (auto simp: filter_empty_conv)
  then show ?thesis by (simp add: pivot_value_def)
qed

lemma sub_cell_absent:
  assumes "\<And>r. r \<in> set dv \<Longrightarrow> group_cols r = g \<Longrightarrow> parse_subclade (haplo r) \<noteq> Some s"
  shows "fillna0 (sub_cell dv g s) = 0"
  using sub_value_absent[OF assms] by (simp add: sub_cell_def fillna0_def)

lemma sub_cell_eq:
  assumes "\<And>r. r \<in> set dv \<Longrightarrow> \<not> leading_space (haplo r)"
  shows "fillna0 (sub_cell dv g s)
         = of_nat (length (filter (\<lambda>r. group_cols r = g \<and> parse_subclade (haplo r) = Some s
                          \<and> haplo_basal_of (haplo r) \<noteq> None) dv))"
proof (cases "g \<in> set (pivot_index (sub_entries dv))")
  case True
  then show ?thesis using sub_value_eq[OF assms] by (simp add: sub_cell_def fillna0_def)
next
  case False
  then have nog: "\<And>x. x \<in> set (sub_keys dv) \<Longrightarrow> fst x \<noteq> g" by (auto simp: sub_index_eq)
  have "\<And>r. r \<in> set dv \<Longrightarrow> \<not> (group_cols r = g \<and> parse_subclade (haplo r) = Some s
                          \<and> haplo_basal_of (haplo r) \<noteq> None)"
  proof
    fix r assume r: "r \<in> set dv" and c: "group_cols r = g \<and> parse_subclade (haplo r) = Some s
                          \<and> haplo_basal_of (haplo r) \<noteq> None"
    then obtain b where "haplo_basal_of (haplo r) = Some b" by blast
    with r c have "(g, b, s) \<in> set (sub_keys dv)" unfolding sub_keys_mem by blast
    with nog show False by fastforce
  qed
  then have "filter (\<lambda>r. group_cols r = g \<and> parse_subclade (haplo r) = Some s
                          \<and> haplo_basal_of (haplo r) \<noteq> None) dv = []"
    by (auto simp: filter_empty_conv)
  with False show ?thesis by (simp add: sub_cell_def fillna0_def)
qed




lemma sub_proj_eq: "sub_proj x = (g, s) \<longleftrightarrow> fst x = g \<and> snd (snd x) = s"
  by (cases x) (auto simp: sub_proj_def)

lemma sub_cell_sum:
  assumes "\<And>r. r \<in> set dv \<Longrightarrow> \<not> leading_space (haplo r)"
  shows "(\<Sum>s\<leftarrow>subclade_cols dv. fillna0 (sub_cell dv g s))
         = of_nat (length (filter (\<lambda>r. group_cols r = g \<and> parse_subclade (haplo r) \<noteq> None
                          \<and> haplo_basal_of (haplo r) \<noteq> None) dv))"
proof -
  let ?ks = "sub_keys dv"
  let ?bs = "subclade_cols dv"
  have d: "distinct ?bs" by (simp add: subclade_cols_eq)
  have cover: "\<And>x. x \<in> set ?ks \<Longrightarrow> fst x = g \<Longrightarrow> snd (snd x) \<in> set ?bs"
    by (simp add: subclade_cols_eq)
  have "(\<lambda>s. fillna0 (sub_cell dv g s))
        = (\<lambda>s. of_nat (length (filter (\<lambda>x. fst x = g \<and> snd (snd x) = s) ?ks)))"
  proof (rule ext)
    fix s
    have "fillna0 (sub_cell dv g s) = of_nat (length (filter (\<lambda>x. sub_proj x = (g, s)) ?ks))"
      by (simp only: sub_cell_eq[OF assms] sub_keys_count)
    then show "fillna0 (sub_cell dv g s)
        = of_nat (length (filter (\<lambda>x. fst x = g \<and> snd (snd x) = s) ?ks))"
      by (simp only: sub_proj_eq)
  qed
  then have "(\<Sum>s\<leftarrow>?bs. fillna0 (sub_cell dv g s))
        = (\<Sum>s\<leftarrow>?bs. of_nat (length (filter (\<lambda>x. fst x = g \<and> snd (snd x) = s) ?ks)))"
    by simp
  also have "\<dots> = of_nat (\<Sum>s\<leftarrow>?bs. length (filter (\<lambda>x. fst x = g \<and> snd (snd x) = s) ?ks))"
    by (simp add: of_nat_sum_list_rat)
  also have "\<dots> = of_nat (length (filter (\<lambda>x. fst x = g) ?ks))"
    using sum_list_count_partition[of ?bs ?ks "\<lambda>x. fst x = g" "\<lambda>x. snd (snd x)", OF d cover] by simp
  finally show ?thesis by (simp add: sub_keys_fst_count)
qed

lemma valid_records_eq: "valid_records df g = filter (\<lambda>r. group_cols r = g) (df_valid df)"
  by (simp add: valid_records_def df_valid_filter passes_filters_spec conj_commute)

lemma valid_records_basal: "r \<in> set (valid_records df g) \<Longrightarrow> haplo_basal_of (haplo r) \<noteq> None"
  by (auto simp: valid_records_eq haplo_basal_of_Some dest: df_valid_nonempty_haplo)

lemma total_count_records: "total_count (df_valid df) g = of_nat (length (valid_records df g))"
  by (simp add: total_count_valid valid_records_def passes_filters_spec)

lemma count_basal_records:
  "count_basal (df_valid df) g b = of_nat (length (with_basal b (valid_records df g)))"
  by (simp add: count_basal_eq valid_records_eq with_basal_def conj_commute)

lemma astype_int_of_nat [simp]: "astype_int (of_nat n) = int n"
  by (simp add: astype_int_def)

lemma total_records:
  assumes "\<And>r. r \<in> set df \<Longrightarrow> \<not> leading_space (haplo r)"
  shows "total (df_valid df) g
         = of_nat (length (valid_records df g)) + of_nat (length (with_any_subclade (valid_records df g)))"
proof -
  let ?dv = "df_valid df"
  have nl: "\<And>r. r \<in> set ?dv \<Longrightarrow> \<not> leading_space (haplo r)"
    using assms by (simp add: df_valid_filter)
  have flt: "filter (\<lambda>r. group_cols r = g \<and> parse_subclade (haplo r) \<noteq> None
                          \<and> haplo_basal_of (haplo r) \<noteq> None) ?dv
        = with_any_subclade (valid_records df g)"
    unfolding with_any_subclade_def valid_records_eq filter_filter
    by (rule filter_cong) (auto simp: haplo_basal_of_Some dest: df_valid_nonempty_haplo)
  have s: "(\<Sum>s\<leftarrow>subclade_cols ?dv. fillna0 (sub_cell ?dv g s))
        = of_nat (length (with_any_subclade (valid_records df g)))"
    using sub_cell_sum[OF nl] flt by simp
  show ?thesis
  proof (cases "subclade_cols ?dv = []")
    case False
    then show ?thesis by (simp add: total_def s total_count_records)
  next
    case True
    then have "(\<Sum>s\<leftarrow>subclade_cols ?dv. fillna0 (sub_cell ?dv g s)) = 0" by simp
    with s have "(of_nat (length (with_any_subclade (valid_records df g))) :: rat) = 0" by simp
    with True show ?thesis by (simp add: total_def total_count_records)
  qed
qed




lemma upper_char_cases:
  "upper_char c = c \<or> (c \<in> set ''abcdefghijklmnopqrstuvwxyz'' \<and> upper_char c \<in> set ''ABCDEFGHIJKLMNOPQRSTUVWXYZ'')"
proof (cases "map_of (zip ''abcdefghijklmnopqrstuvwxyz'' ''ABCDEFGHIJKLMNOPQRSTUVWXYZ'') c")
  case None
  then show ?thesis by (simp add: upper_char_def)
next
  case (Some u)
  then have "(c, u) \<in> set (zip ''abcdefghijklmnopqrstuvwxyz'' ''ABCDEFGHIJKLMNOPQRSTUVWXYZ'')"
    by (rule map_of_SomeD)
  then have "c \<in> set ''abcdefghijklmnopqrstuvwxyz'' \<and> u \<in> set ''ABCDEFGHIJKLMNOPQRSTUVWXYZ''"
    by (metis set_zip_leftD set_zip_rightD)
  moreover have "upper_char c = u" using Some by (simp add: upper_char_def)
  ultimately show ?thesis by simp
qed

lemma lower_not_space: "c \<in> set ''abcdefghijklmnopqrstuvwxyz'' \<Longrightarrow> \<not> isspace c"
  by (auto simp: isspace_def)

lemma cap_not_space: "c \<in> set ''ABCDEFGHIJKLMNOPQRSTUVWXYZ'' \<Longrightarrow> \<not> isspace c"
  by (auto simp: isspace_def)

lemma cap_upper_all: "list_all (\<lambda>c. upper_char c = c) ''ABCDEFGHIJKLMNOPQRSTUVWXYZ''"
  by code_simp

lemma cap_upper: "c \<in> set ''ABCDEFGHIJKLMNOPQRSTUVWXYZ'' \<Longrightarrow> upper_char c = c"
  using cap_upper_all unfolding list_all_iff by blast

lemma isspace_upper: "isspace c \<Longrightarrow> upper_char c = c"
  using upper_char_cases[of c] lower_not_space[of c] by blast

lemma upper_not_space: "\<not> isspace c \<Longrightarrow> \<not> isspace (upper_char c)"
  using upper_char_cases[of c] cap_not_space[of "upper_char c"] by metis

lemma upper_char_idem [simp]: "upper_char (upper_char c) = upper_char c"
  using upper_char_cases[of c] cap_upper[of "upper_char c"] by metis

lemma basal_keys_mem:
  "(g, b) \<in> set (basal_keys dv) \<longleftrightarrow>
   (\<exists>r\<in>set dv. group_cols r = g \<and> haplo_basal_of (haplo r) = Some b)"
  by (induction dv) (auto simp: basal_keys_def split: option.splits)

lemma basal_letter_shape:
  assumes "b \<in> set (basal_letters dv)"
  shows "\<exists>c. b = [upper_char c]"
proof -
  from assms obtain g where "(g, b) \<in> set (basal_keys dv)" by (auto simp: basal_letters_eq)
  then obtain r :: row where "haplo_basal_of (haplo r) = Some b" unfolding basal_keys_mem by blast
  then show ?thesis by (cases "haplo r") (auto simp: haplo_basal_of_def)
qed

lemma basal_letter_length: "b \<in> set (basal_letters dv) \<Longrightarrow> length b = 1"
  using basal_letter_shape by fastforce

lemma basal_letter_upper: "b \<in> set (basal_letters dv) \<Longrightarrow> upper b = b"
  using basal_letter_shape[of b dv] by (auto simp: upper_def)

lemma subclade_col_shape:
  assumes "s \<in> set (subclade_cols dv)"
  shows "\<exists>h. 2 \<le> length (strip h) \<and> s = upper (take 2 (strip h))"
proof -
  from assms obtain g b where "(g, b, s) \<in> set (sub_keys dv)" by (auto simp: subclade_cols_eq)
  then obtain r :: row where "parse_subclade (haplo r) = Some s" unfolding sub_keys_mem by blast
  then show ?thesis using parse_subclade_Some by blast
qed

lemma subclade_col_length: "s \<in> set (subclade_cols dv) \<Longrightarrow> length s = 2"
  using subclade_col_shape[of s dv] by (auto simp: upper_def)

lemma subclade_col_upper: "s \<in> set (subclade_cols dv) \<Longrightarrow> upper s = s"
  using subclade_col_shape[of s dv] by (auto simp: upper_def)

lemma basal_not_subclade: "b \<in> set (basal_letters dv) \<Longrightarrow> b \<notin> set (subclade_cols dv)"
  using basal_letter_length subclade_col_length by fastforce

lemma related_subs_set:
  "set (related_subs dv b) = {s \<in> set (subclade_cols dv). startswith s b}"
  by (auto simp: related_subs_def)

lemma haplo_order_set:
  "set (haplo_order dv) =
   set (basal_letters dv) \<union> {s \<in> set (subclade_cols dv). \<exists>b\<in>set (basal_letters dv). startswith s b}"
  by (auto simp: haplo_order_def related_subs_set)

lemma haplo_order_merged: "c \<in> set (haplo_order dv) \<Longrightarrow> c \<in> set (merged_columns dv)"
  by (auto simp: haplo_order_set merged_columns_def)

lemma haplo_cols_filter: "filter (\<lambda>c. c \<in> set (merged_columns dv)) (haplo_order dv) = haplo_order dv"
  by (simp add: haplo_order_merged)

lemma final_cols_eq: "final_cols dv = base_cols @ haplo_order dv @ [''Total'']"
proof -
  have "filter (\<lambda>c. c \<in> set (merged_columns dv)) base_cols = base_cols"
    by (simp add: base_cols_def merged_columns_def)
  moreover have "filter (\<lambda>c. c \<in> set (merged_columns dv)) [''Total''] = [''Total'']"
    by (simp add: merged_columns_def)
  ultimately show ?thesis
    unfolding final_cols_def final_order_of_haplos_def filter_append
    by (simp only: haplo_cols_filter)
qed

lemma required_cols_present:
  "list_all (\<lambda>c. c \<in> set (final_cols dv)) [''Ancient pop name'', ''Country'', ''Total'']"
  by (simp add: final_cols_eq base_cols_def)

lemma basal_keys_valid_nonempty: "df_valid df \<noteq> [] \<Longrightarrow> basal_keys (df_valid df) \<noteq> []"
proof -
  assume "df_valid df \<noteq> []"
  then obtain r where r: "r \<in> set (df_valid df)" by (cases "df_valid df") auto
  then have "haplo_basal_of (haplo r) = Some [upper_char (hd (haplo r))]"
    using df_valid_nonempty_haplo haplo_basal_of_Some by blast
  with r have "(group_cols r, [upper_char (hd (haplo r))]) \<in> set (basal_keys (df_valid df))"
    unfolding basal_keys_mem by blast
  then show ?thesis by auto
qed

lemma make_haplo_table_success:
  assumes "df_valid df \<noteq> []"
  shows "make_haplo_table df =
         Inr (warnings (df_valid df),
              \<lparr>columns = final_cols (df_valid df),
               rows = map (make_row (df_valid df)) (groups (df_valid df))\<rparr>)"
proof -
  have "filter_invalid_patterns df \<noteq> []" using assms by (auto simp: df_valid_def)
  moreover have "grouped_basal (df_valid df) \<noteq> []"
    using basal_keys_valid_nonempty[OF assms] by (simp add: grouped_basal_def groupby_size_Nil_iff)
  ultimately show ?thesis
    using assms required_cols_present[of "df_valid df"] by (simp add: make_haplo_table_def)
qed

lemma make_haplo_table_Inr:
  assumes "make_haplo_table df = Inr (ws, t)"
  shows "df_valid df \<noteq> [] \<and> ws = warnings (df_valid df) \<and> columns t = final_cols (df_valid df)
         \<and> rows t = map (make_row (df_valid df)) (groups (df_valid df))"
proof -
  have ne: "df_valid df \<noteq> []" using assms by (auto simp: make_haplo_table_def split: if_splits)
  from make_haplo_table_success[OF ne] assms show ?thesis using ne by auto
qed

lemma zip_map_mem: "(g, r) \<in> set (zip xs (map f xs)) \<Longrightarrow> g \<in> set xs \<and> r = f g"
  by (induction xs) auto

lemma row_of_group:
  assumes "make_haplo_table df = Inr (ws, t)" "(g, r) \<in> set (zip (groups (df_valid df)) (rows t))"
  shows "g \<in> set (groups (df_valid df)) \<and> r = make_row (df_valid df) g"
  using make_haplo_table_Inr[OF assms(1)] assms(2) zip_map_mem by metis

lemma groups_valid_records: "g \<in> set (groups (df_valid df)) \<longleftrightarrow> valid_records df g \<noteq> []"
proof -
  have "g \<in> set (groups (df_valid df)) \<longleftrightarrow> (\<exists>b. (g, b) \<in> set (basal_keys (df_valid df)))"
    by (force simp: groups_eq)
  also have "\<dots> \<longleftrightarrow> (\<exists>r\<in>set (df_valid df). group_cols r = g)"
    unfolding basal_keys_mem
    using df_valid_nonempty_haplo haplo_basal_of_Some by blast
  also have "\<dots> \<longleftrightarrow> valid_records df g \<noteq> []"
    by (auto simp: valid_records_eq filter_empty_conv)
  finally show ?thesis .
qed




lemma binned_500: "binned_age_of (Some 500) = ''0-1000 BP''"
  by code_simp

lemma mk_row_500: "mk_row e (Some 500) la lo h =
  \<lparr>political_entity = e, age_numeric = Some 500, lat_numeric = la, long_numeric = lo, haplo = h,
   binned_age = ''0-1000 BP'', ancient_pop_name = e @ '' 0-1000 BP''\<rparr>"
  by (simp add: mk_row_def mk_sample_def add_group_columns_def binned_500)

lemma group_cols_mk_row_500: "group_cols (mk_row e (Some 500) la lo h) = (e @ '' 0-1000 BP'', e, ''0-1000 BP'')"
  by (simp add: mk_row_500 group_cols_def)

lemma haplo_mk_row: "haplo (mk_row e a la lo h) = h"
  by (simp add: mk_row_def mk_sample_def add_group_columns_def)

lemma sv1: "spec_valid ''A1''" "spec_valid ''A2''" "spec_valid ''B''" "spec_valid ''A''" "spec_valid '' A1''"
  "\<not> spec_valid ''n/a''"
  by (simp_all add: spec_valid_def strip_def isspace_def isdigit_def)

lemma ps1: "parse_subclade ''A1'' = Some ''A1''" "parse_subclade ''A2'' = Some ''A2''" "parse_subclade ''B'' = None"
  "parse_subclade ''A'' = None" "parse_subclade '' A1'' = Some ''A1''"
  by (simp_all add: parse_subclade_def strip_def isspace_def isdigit_def upper_def upper_char_def)

lemma hb1: "haplo_basal_of ''A1'' = Some ''A''" "haplo_basal_of ''A2'' = Some ''A''" "haplo_basal_of ''B'' = Some ''B''"
  "haplo_basal_of ''A'' = Some ''A''" "haplo_basal_of '' A1'' = Some '' ''"
  by (simp_all add: haplo_basal_of_def upper_char_def)

lemma vr_scenario: "valid_records ex_scenario gX = ex_scenario"
  by (simp add: valid_records_def ex_scenario_def gX_def group_cols_mk_row_500 haplo_mk_row sv1)




lemma df_valid_drop_invalid:
  "\<not> spec_valid (haplo x) \<Longrightarrow> df_valid (xs @ x # ys) = df_valid (xs @ ys)"
  by (simp add: df_valid_filter passes_filters_spec)

lemma hd_strip: assumes "strip s \<noteq> []" shows "hd (strip s) = hd (dropWhile isspace s)"
proof -
  obtain zs where "dropWhile isspace s = strip s @ zs" using strip_prefix by blast
  with assms show ?thesis by (metis hd_append2)
qed

lemma hd_strip_not_space: assumes "strip s \<noteq> []" shows "\<not> isspace (hd (strip s))"
proof -
  have "dropWhile isspace s \<noteq> []"
  proof
    assume e: "dropWhile isspace s = []"
    have "strip s = []" unfolding strip_def e by simp
    with assms show False by simp
  qed
  then have "\<not> isspace (hd (dropWhile isspace s))" by (rule hd_dropWhile)
  then show ?thesis using hd_strip[OF assms] by simp
qed

lemma spec_valid_strip: "spec_valid h \<Longrightarrow> strip h \<noteq> []"
  by (auto simp: spec_valid_def Let_def)

lemma spec_valid_df_valid: "r \<in> set df \<Longrightarrow> spec_valid (haplo r) \<Longrightarrow> r \<in> set (df_valid df)"
  by (simp add: df_valid_filter passes_filters_spec)

lemma parse_subclade_valid:
  "spec_valid h \<Longrightarrow> 2 \<le> length (strip h) \<Longrightarrow> parse_subclade h = Some (upper (take 2 (strip h)))"
  by (auto simp: spec_valid_def parse_subclade_def Let_def)

lemma parent_letter_sub: "2 \<le> length x \<Longrightarrow> parent_letter (upper (take 2 x)) = [upper_char (hd x)]"
  by (cases x) (auto simp: parent_letter_def upper_def)

lemma count_basal_pos:
  assumes "r \<in> set dv" "haplo_basal_of (haplo r) = Some b"
  shows "1 \<le> count_basal dv (group_cols r) b"
proof -
  have "r \<in> set (filter (\<lambda>x. group_cols x = group_cols r \<and> haplo_basal_of (haplo x) = Some b) dv)"
    using assms by simp
  then have "0 < length (filter (\<lambda>x. group_cols x = group_cols r \<and> haplo_basal_of (haplo x) = Some b) dv)"
    by (rule length_pos_if_in_set)
  then have "1 \<le> length (filter (\<lambda>x. group_cols x = group_cols r \<and> haplo_basal_of (haplo x) = Some b) dv)"
    by linarith
  then show ?thesis unfolding count_basal_eq by (simp only: of_nat_1[symmetric, where 'a = rat] of_nat_le_iff)
qed

lemma basal_letters_mem:
  "b \<in> set (basal_letters dv) \<longleftrightarrow> (\<exists>r\<in>set dv. haplo_basal_of (haplo r) = Some b)"
proof -
  have "b \<in> set (basal_letters dv) \<longleftrightarrow> (\<exists>g. (g, b) \<in> set (basal_keys dv))"
    by (force simp: basal_letters_eq)
  then show ?thesis unfolding basal_keys_mem by blast
qed

lemma dv_scenario: "df_valid ex_scenario = ex_scenario"
  by (simp add: df_valid_filter passes_filters_spec ex_scenario_def haplo_mk_row sv1)

lemma nl_scenario: "\<forall>x\<in>set ex_scenario. \<not> leading_space (haplo x)"
  by (simp add: ex_scenario_def haplo_mk_row leading_space_def isspace_def)

lemma groups_scenario: "groups (df_valid ex_scenario) = [gX]"
  unfolding dv_scenario groups_eq
  by (simp add: basal_keys_def ex_scenario_def haplo_mk_row hb1 group_cols_mk_row_500 gX_def)

lemma len_vr_scenario: "length (valid_records ex_scenario gX) = 3"
  unfolding vr_scenario by (simp add: ex_scenario_def)

lemma len_subs_scenario: "length (with_any_subclade (valid_records ex_scenario gX)) = 2"
  unfolding vr_scenario by (simp add: with_any_subclade_def ex_scenario_def haplo_mk_row ps1)

lemma total_cell_records:
  assumes "\<forall>x\<in>set df. \<not> leading_space (haplo x)"
  shows "total_cell (make_row (df_valid df) g)
         = int (length (valid_records df g)) + int (length (with_any_subclade (valid_records df g)))"
proof -
  have "total (df_valid df) g = of_nat (length (valid_records df g) + length (with_any_subclade (valid_records df g)))"
    using total_records[of df g] assms by simp
  then show ?thesis by (simp add: make_row_def del: of_nat_add)
qed

lemma sum_basal_records:
  "(\<Sum>b\<leftarrow>basal_letters (df_valid df). count_basal (df_valid df) g b) = of_nat (length (valid_records df g))"
  using total_count_records[of df g] by (simp add: total_count_def)

lemma pct_where_if: "0 \<le> t \<Longrightarrow> pct_where c t = (if t = 0 then 0 else 100 * c / t)"
  by (simp add: pct_where_def)

lemma total_count_nonneg: "0 \<le> total_count dv g"
  by (simp add: total_count_eq)

lemma haplo_cells_eq:
  "haplo_cells (make_row dv g) = map (\<lambda>c. (c, format_pct (haplo_value dv g c))) (haplo_order dv)"
  by (simp add: make_row_def haplo_cols_filter)

lemma basal_in_haplo_order: "b \<in> set (basal_letters dv) \<Longrightarrow> b \<in> set (haplo_order dv)"
  by (simp add: haplo_order_set)

lemma basal_cell:
  assumes "b \<in> set (basal_letters dv)"
  shows "(b, format_pct (Some (basal_pct dv g b))) \<in> set (haplo_cells (make_row dv g))"
proof -
  have "haplo_value dv g b = Some (basal_pct dv g b)"
    using basal_not_subclade[OF assms] by (simp add: haplo_value_def)
  then show ?thesis
    unfolding haplo_cells_eq using basal_in_haplo_order[OF assms] by force
qed

lemma zero_total_in_warnings:
  "ZeroTotal \<in> set (warnings dv) \<longleftrightarrow> (\<exists>g\<in>set (groups dv). total_count dv g = 0)"
  by (auto simp: warnings_def zero_total_warning_def list_ex_iff)

lemma age_unknown_warning:
  "AgeUnknown \<in> set (warnings dv) \<longleftrightarrow> (\<exists>g\<in>set (groups dv). coord_mean dv age_numeric g = None)"
  by (auto simp: warnings_def zero_total_warning_def list_ex_iff)


lemma str_nat_small: "n < 10 \<Longrightarrow> str_nat n = [digit_char n]"
  by (simp add: str_nat.simps)

lemma str_nat_large: "\<not> n < 10 \<Longrightarrow> str_nat n = str_nat (n div 10) @ [digit_char (n mod 10)]"
  by (subst str_nat.simps) simp

lemma format_2f_hundredths:
  "0 \<le> x \<Longrightarrow> round_half_even (x * 100) = int h \<Longrightarrow>
   format_2f x = str_nat (h div 100) @ ''.'' @ [digit_char (h mod 100 div 10), digit_char (h mod 10)]"
  by (simp add: format_2f_def Let_def)

lemma rhe_66: "round_half_even (200 / 3 * 100) = int 6667"
  by code_simp

lemma fmt_66: "format_pct (Some (200 / 3)) = ''66.67%''"
  using format_2f_hundredths[OF _ rhe_66]
  by (simp add: format_pct_def str_nat_small str_nat_large digit_char_def)

lemma basal_A_scenario: "''A'' \<in> set (basal_letters (df_valid ex_scenario))"
  unfolding basal_letters_mem dv_scenario by (simp add: ex_scenario_def haplo_mk_row hb1)

lemma len_basal_A_scenario: "length (with_basal ''A'' (valid_records ex_scenario gX)) = 2"
  unfolding vr_scenario by (simp add: with_basal_def ex_scenario_def haplo_mk_row hb1)

lemma age_column_known:
  assumes "AgeUnknown \<notin> set (warnings dv)" "g \<in> set (groups dv)"
  shows "coord_mean dv age_numeric g \<noteq> None
       \<and> age_column dv g = format_calendar_year (round_half_even (1950 - the (coord_mean dv age_numeric g)))"
proof -
  from assms have all: "\<not> list_ex (\<lambda>g'. coord_mean dv age_numeric g' = None) (groups dv)"
    and some: "coord_mean dv age_numeric g \<noteq> None"
    unfolding age_unknown_warning list_ex_iff by auto
  then show ?thesis by (auto simp: age_column_def fillna0_def)
qed

lemma dvals_scenario:
  "defined_values lat_numeric (valid_records ex_scenario gX) = [10, 30]"
  "defined_values long_numeric (valid_records ex_scenario gX) = [20]"
  "defined_values age_numeric (valid_records ex_scenario gX) = [500, 500, 500]"
  unfolding vr_scenario by (simp_all add: defined_values_def ex_scenario_def mk_row_500)


lemma rhe_int: "round_half_even (of_int i) = i"
  by (simp add: round_half_even_def)

lemma basal_letters_strict: "sorted_wrt (<) (basal_letters dv)"
  by (simp add: basal_letters_eq strict_sorted_iff)

lemma sort_basal_letters: "sort (basal_letters dv) = basal_letters dv"
  by (simp add: basal_letters_eq sorted_sort_id)

lemma related_subs_strict: "sorted_wrt (<) (related_subs dv b)"
  by (simp add: related_subs_def subclade_cols_eq strict_sorted_iff)

lemma related_subs_shape:
  assumes "s \<in> set (related_subs dv b)" "length b = 1"
  shows "length s = 2 \<and> take 1 s = b"
proof -
  from assms(1) have m: "s \<in> set (subclade_cols dv)" and st: "startswith s b"
    by (simp_all add: related_subs_set)
  from st assms(2) have "take 1 s = b" by (simp add: startswith_def)
  with subclade_col_length[OF m] show ?thesis by simp
qed

lemma block_follows:
  assumes "sorted_wrt (<) ss" "\<And>s. s \<in> set ss \<Longrightarrow> length s = 2 \<and> take 1 s = b"
  shows "successively column_follows (b # ss)"
proof -
  have "successively (<) ss" using assms(1) by (rule successively_if_sorted_wrt)
  then have inner: "successively column_follows ss"
  proof (rule successively_mono)
    fix x y assume "x \<in> set ss" "y \<in> set ss" "x < y"
    then show "column_follows x y" using assms(2) by (simp add: column_follows_def)
  qed
  show ?thesis
  proof (cases ss)
    case Nil
    then show ?thesis by simp
  next
    case (Cons s rest)
    then have "column_follows b s" using assms(2)[of s] by (simp add: column_follows_def)
    with inner Cons show ?thesis by simp
  qed
qed

lemma blocks_follow:
  assumes "sorted_wrt (<) bs" "\<And>b. b \<in> set bs \<Longrightarrow> length b = 1"
    "\<And>b. b \<in> set bs \<Longrightarrow> sorted_wrt (<) (subs b)"
    "\<And>b s. b \<in> set bs \<Longrightarrow> s \<in> set (subs b) \<Longrightarrow> length s = 2 \<and> take 1 s = b"
  shows "successively column_follows (concat (map (\<lambda>b. b # subs b) bs))"
  using assms
proof (induction bs)
  case Nil
  then show ?case by simp
next
  case (Cons b bs)
  have blk: "successively column_follows (b # subs b)"
    using Cons.prems(3)[of b] Cons.prems(4)[of b] by (intro block_follows) simp_all
  have rest: "successively column_follows (concat (map (\<lambda>b. b # subs b) bs))"
  proof (rule Cons.IH)
    show "sorted_wrt (<) bs" using Cons.prems(1) by simp
  next
    fix c assume "c \<in> set bs"
    then show "length c = 1" using Cons.prems(2)[of c] by simp
  next
    fix c assume "c \<in> set bs"
    then show "sorted_wrt (<) (subs c)" using Cons.prems(3)[of c] by simp
  next
    fix c s assume "c \<in> set bs" "s \<in> set (subs c)"
    then show "length s = 2 \<and> take 1 s = c" using Cons.prems(4)[of c s] by simp
  qed
  have link: "bs \<noteq> [] \<Longrightarrow>
      column_follows (last (b # subs b)) (hd (concat (map (\<lambda>b. b # subs b) bs)))"
  proof -
    assume ne: "bs \<noteq> []"
    then obtain b' bs' where bs: "bs = b' # bs'" by (cases bs) auto
    have lb: "length b = 1" and lb': "length b' = 1" using Cons.prems(2) bs by simp_all
    have lt: "b < b'" using Cons.prems(1) bs by simp
    have "last (b # subs b) \<in> set (b # subs b)" by (rule last_in_set) simp
    then have "take 1 (last (b # subs b)) = b"
      using Cons.prems(4)[of b] lb by auto
    then show ?thesis using bs lb' lt by (simp add: column_follows_def)
  qed
  show ?case
  proof (cases "bs = []")
    case True
    then show ?thesis using blk by simp
  next
    case False
    then have "concat (map (\<lambda>b. b # subs b) bs) \<noteq> []" by (cases bs) auto
    then show ?thesis
      using blk rest link[OF False]
      by (simp add: successively_append_iff[of column_follows "b # subs b", simplified])
  qed
qed

lemma haplo_order_blocks:
  "haplo_order dv = concat (map (\<lambda>b. b # related_subs dv b) (basal_letters dv))"
  by (simp add: haplo_order_def sort_basal_letters)

lemma haplo_order_follows: "successively column_follows (haplo_order dv)"
  unfolding haplo_order_blocks
proof (rule blocks_follow)
  show "sorted_wrt (<) (basal_letters dv)" by (rule basal_letters_strict)
next
  fix b assume "b \<in> set (basal_letters dv)"
  then show "length b = 1" by (rule basal_letter_length)
next
  fix b show "sorted_wrt (<) (related_subs dv b)" by (rule related_subs_strict)
next
  fix b s assume "b \<in> set (basal_letters dv)" "s \<in> set (related_subs dv b)"
  then show "length s = 2 \<and> take 1 s = b"
    using related_subs_shape basal_letter_length by blast
qed

lemma filter_blocks:
  assumes "\<And>b. b \<in> set bs \<Longrightarrow> length b = 1"
    "\<And>b s. b \<in> set bs \<Longrightarrow> s \<in> set (subs b) \<Longrightarrow> length s = 2"
  shows "filter (\<lambda>c. length c = 1) (concat (map (\<lambda>b. b # subs b) bs)) = bs"
  using assms
proof (induction bs)
  case Nil
  then show ?case by simp
next
  case (Cons b bs)
  have "filter (\<lambda>c. length c = 1) (subs b) = []"
    using Cons.prems(2)[of b] by (auto simp: filter_empty_conv)
  moreover have "filter (\<lambda>c. length c = 1) (concat (map (\<lambda>b. b # subs b) bs)) = bs"
  proof (rule Cons.IH)
    fix c assume "c \<in> set bs"
    then show "length c = 1" using Cons.prems(1)[of c] by simp
  next
    fix c s assume "c \<in> set bs" "s \<in> set (subs c)"
    then show "length s = 2" using Cons.prems(2)[of c s] by simp
  qed
  ultimately show ?case using Cons.prems(1)[of b] by simp
qed

lemma haplo_order_basal: "filter (\<lambda>c. length c = 1) (haplo_order dv) = basal_letters dv"
  unfolding haplo_order_blocks
proof (rule filter_blocks)
  fix b assume "b \<in> set (basal_letters dv)"
  then show "length b = 1" by (rule basal_letter_length)
next
  fix b s assume "b \<in> set (basal_letters dv)" "s \<in> set (related_subs dv b)"
  then show "length s = 2"
    using related_subs_shape basal_letter_length by blast
qed

lemma haplo_order_nonempty: "df_valid df \<noteq> [] \<Longrightarrow> haplo_order (df_valid df) \<noteq> []"
proof -
  assume "df_valid df \<noteq> []"
  then have "basal_keys (df_valid df) \<noteq> []" by (rule basal_keys_valid_nonempty)
  then have "basal_letters (df_valid df) \<noteq> []"
    unfolding basal_letters_eq by (metis list.map_disc_iff set_empty set_remdups set_sort)
  then show ?thesis unfolding haplo_order_blocks by (cases "basal_letters (df_valid df)") auto
qed

lemma haplo_order_hd: "haplo_order dv \<noteq> [] \<Longrightarrow> length (hd (haplo_order dv)) = 1"
proof (cases "basal_letters dv")
  case Nil
  assume "haplo_order dv \<noteq> []"
  with Nil show ?thesis by (simp add: haplo_order_blocks)
next
  case (Cons b bs)
  then have "b \<in> set (basal_letters dv)" by simp
  then have "length b = 1" by (rule basal_letter_length)
  with Cons show ?thesis by (simp add: haplo_order_blocks)
qed

lemma basal_letters_scenario: "basal_letters (df_valid ex_scenario) = [''A'', ''B'']"
  unfolding dv_scenario basal_letters_eq
  by (simp add: basal_keys_def ex_scenario_def haplo_mk_row hb1 group_cols_mk_row_500)

lemma subclade_cols_scenario: "subclade_cols (df_valid ex_scenario) = [''A1'', ''A2'']"
  unfolding dv_scenario subclade_cols_eq
  by (simp add: sub_keys_def ex_scenario_def haplo_mk_row hb1 ps1 group_cols_mk_row_500)

lemma haplo_order_scenario: "haplo_order (df_valid ex_scenario) = [''A'', ''A1'', ''A2'', ''B'']"
  unfolding haplo_order_blocks related_subs_def basal_letters_scenario subclade_cols_scenario
  by (simp add: startswith_def)

lemma pct_where_nonneg: "0 \<le> a \<Longrightarrow> 0 \<le> pct_where a b"
  by (simp add: pct_where_def)

lemma count_basal_nonneg: "0 \<le> count_basal dv g b"
  by (simp add: count_basal_eq)

lemma pivot_value_nonneg:
  assumes "\<And>e. e \<in> set es \<Longrightarrow> 0 \<le> snd e"
  shows "0 \<le> pivot_value es i c"
proof -
  have "0 \<le> sum_list (map snd (filter (\<lambda>e. fst e = (i, c)) es))"
    by (rule sum_list_nonneg) (use assms in auto)
  then show ?thesis by (simp add: pivot_value_def Let_def)
qed

lemma sub_cell_nonneg: "0 \<le> fillna0 (sub_cell dv g s)"
proof -
  have "0 \<le> pivot_value (sub_entries dv) g s"
    by (rule pivot_value_nonneg) (auto simp: sub_entries_def)
  then show ?thesis by (simp add: sub_cell_def fillna0_def)
qed

lemma haplo_value_nonneg: "\<exists>x. 0 \<le> x \<and> haplo_value dv g c = Some x"
  by (simp add: haplo_value_def sub_pct_def basal_pct_def pct_where_nonneg
      sub_cell_nonneg count_basal_nonneg)

lemma format_pct_shape:
  assumes "0 \<le> x"
  shows "\<exists>n d1 d2. d1 < 10 \<and> d2 < 10
           \<and> format_pct (Some x) = str_nat n @ ''.'' @ [digit_char d1, digit_char d2] @ ''%''"
proof -
  let ?h = "nat (round_half_even (\<bar>x\<bar> * 100))"
  have "format_pct (Some x)
        = str_nat (?h div 100) @ ''.'' @ [digit_char (?h mod 100 div 10), digit_char (?h mod 10)] @ ''%''"
    using assms by (simp add: format_pct_def format_2f_def Let_def)
  moreover have "?h mod 100 div 10 < 10" by simp
  moreover have "?h mod 10 < 10" by simp
  ultimately show ?thesis by blast
qed

lemma haplo_cell_mem:
  "(c, v) \<in> set (haplo_cells (make_row dv g)) \<Longrightarrow>
   c \<in> set (haplo_order dv) \<and> v = format_pct (haplo_value dv g c)"
  by (auto simp: haplo_cells_eq)

lemma fmt_0: "format_pct (Some 0) = ''0.00%''"
  using format_2f_hundredths[of 0 0] rhe_int[of 0]
  by (simp add: format_pct_def str_nat_small digit_char_def)

lemma sub_pct_absent:
  assumes "with_subclade s (valid_records df g) = []"
  shows "sub_pct (df_valid df) g s = 0"
proof -
  have "\<And>r. r \<in> set (df_valid df) \<Longrightarrow> group_cols r = g \<Longrightarrow> parse_subclade (haplo r) \<noteq> Some s"
    using assms by (auto simp: with_subclade_def valid_records_eq filter_empty_conv)
  then have "fillna0 (sub_cell (df_valid df) g s) = 0" by (rule sub_cell_absent)
  then show ?thesis by (simp add: sub_pct_def pct_where_def)
qed

lemma dv_two_groups: "df_valid ex_two_groups = ex_two_groups"
  by (simp add: df_valid_filter passes_filters_spec ex_two_groups_def haplo_mk_row sv1)

lemma groups_two_groups: "groups (df_valid ex_two_groups) = [gX, gY]"
  unfolding dv_two_groups groups_eq
  by (simp add: basal_keys_def ex_two_groups_def haplo_mk_row hb1 group_cols_mk_row_500 gX_def gY_def)

lemma basal_letters_two_groups: "basal_letters (df_valid ex_two_groups) = [''A'', ''B'']"
  unfolding dv_two_groups basal_letters_eq
  by (simp add: basal_keys_def ex_two_groups_def haplo_mk_row hb1 group_cols_mk_row_500)

lemma subclade_cols_two_groups: "subclade_cols (df_valid ex_two_groups) = [''A1'']"
  unfolding dv_two_groups subclade_cols_eq
  by (simp add: sub_keys_def ex_two_groups_def haplo_mk_row hb1 ps1 group_cols_mk_row_500)

lemma haplo_order_two_groups: "haplo_order (df_valid ex_two_groups) = [''A'', ''A1'', ''B'']"
  unfolding haplo_order_blocks related_subs_def basal_letters_two_groups subclade_cols_two_groups
  by (simp add: startswith_def)

lemma vr_two_groups_Y:
  "valid_records ex_two_groups gY = [mk_row ''Y'' (Some 500) None None ''B'']"
  by (simp add: valid_records_def ex_two_groups_def gY_def group_cols_mk_row_500 haplo_mk_row sv1)

lemma no_A1_in_Y: "with_subclade ''A1'' (valid_records ex_two_groups gY) = []"
  unfolding vr_two_groups_Y by (simp add: with_subclade_def haplo_mk_row ps1)




lemma related_sub_pct:
  assumes "b \<in> set (basal_letters dv)" "s \<in> set (related_subs dv b)"
  shows "sub_pct dv g s = pct_where (fillna0 (sub_cell dv g s)) (count_basal dv g b)"
proof -
  have "take 1 s = b"
    using related_subs_shape[OF assms(2) basal_letter_length[OF assms(1)]] by simp
  then have "parent_letter s = b"
    using basal_letter_upper[OF assms(1)] by (simp add: parent_letter_def)
  then show ?thesis using assms(1) by (simp add: sub_pct_def has_parent_count_def)
qed














lemma subclade_percentage_without_leading_space:
  assumes "\<forall>x\<in>set df. \<not> leading_space (haplo x)"
    and "b \<in> set (basal_letters (df_valid df))"
    and "s \<in> set (related_subs (df_valid df) b)"
  shows "sub_pct (df_valid df) g s
         = (if count_basal (df_valid df) g b = 0 then 0
            else 100 * of_nat (length (with_subclade s (valid_records df g)))
                 / count_basal (df_valid df) g b)"
proof -
  have nl': "\<And>r. r \<in> set (df_valid df) \<Longrightarrow> \<not> leading_space (haplo r)"
    using assms(1) by (simp add: df_valid_filter)
  have "filter (\<lambda>r. group_cols r = g \<and> parse_subclade (haplo r) = Some s
                          \<and> haplo_basal_of (haplo r) \<noteq> None) (df_valid df)
        = with_subclade s (valid_records df g)"
    unfolding with_subclade_def valid_records_eq filter_filter
    by (rule filter_cong) (auto simp: haplo_basal_of_Some dest: df_valid_nonempty_haplo)
  then have "fillna0 (sub_cell (df_valid df) g s) = of_nat (length (with_subclade s (valid_records df g)))"
    using sub_cell_eq[OF nl', where g = g and s = s] by simp
  then show ?thesis
    unfolding related_sub_pct[OF assms(2,3)]
    using pct_where_if[OF count_basal_nonneg[of "df_valid df" g b]] by simp
qed

lemma dv_untrimmed: "df_valid ex_untrimmed = ex_untrimmed"
  by (simp add: df_valid_filter passes_filters_spec ex_untrimmed_def haplo_mk_row sv1)

lemma vr_untrimmed: "valid_records ex_untrimmed gX = ex_untrimmed"
  by (simp add: valid_records_def ex_untrimmed_def gX_def group_cols_mk_row_500 haplo_mk_row sv1)

lemma sub_keys_untrimmed:
  "sub_keys (df_valid ex_untrimmed) = [(gX, ''A'', ''A1''), (gX, ''A'', ''A1''), (gX, '' '', ''A1'')]"
  unfolding dv_untrimmed
  by (simp add: sub_keys_def ex_untrimmed_def haplo_mk_row hb1 ps1 group_cols_mk_row_500 gX_def)

lemma grouped_sub_untrimmed:
  "grouped_sub (df_valid ex_untrimmed) = [((gX, '' '', ''A1''), 1), ((gX, ''A'', ''A1''), 2)]"
  unfolding grouped_sub_def sub_keys_untrimmed by (simp add: groupby_size_def gX_def)

lemma sub_entries_untrimmed:
  "sub_entries (df_valid ex_untrimmed) = [((gX, ''A1''), 1), ((gX, ''A1''), 2)]"
  unfolding sub_entries_def grouped_sub_untrimmed by simp

lemma sub_cell_untrimmed: "sub_cell (df_valid ex_untrimmed) gX ''A1'' = Some (3 / 2)"
  unfolding sub_cell_def sub_entries_untrimmed by (simp add: pivot_index_def pivot_value_def)

lemma basal_letters_untrimmed: "basal_letters (df_valid ex_untrimmed) = ['' '', ''A'']"
  unfolding dv_untrimmed basal_letters_eq
  by (simp add: basal_keys_def ex_untrimmed_def haplo_mk_row hb1 group_cols_mk_row_500)

lemma subclade_cols_untrimmed: "subclade_cols (df_valid ex_untrimmed) = [''A1'']"
  unfolding subclade_cols_def sub_entries_untrimmed by (simp add: pivot_columns_def)

lemma haplo_order_untrimmed: "haplo_order (df_valid ex_untrimmed) = ['' '', ''A'', ''A1'']"
  unfolding haplo_order_blocks related_subs_def basal_letters_untrimmed subclade_cols_untrimmed
  by (simp add: startswith_def)

lemma count_A_untrimmed: "count_basal (df_valid ex_untrimmed) gX ''A'' = 2"
  unfolding count_basal_records vr_untrimmed
  by (simp add: with_basal_def ex_untrimmed_def haplo_mk_row hb1)

lemma sub_pct_untrimmed: "sub_pct (df_valid ex_untrimmed) gX ''A1'' = 75"
  by (simp add: sub_pct_def has_parent_count_def parent_letter_def upper_def upper_char_def
      basal_letters_untrimmed sub_cell_untrimmed count_A_untrimmed fillna0_def pct_where_def)

lemma fmt_75: "format_pct (Some 75) = ''75.00%''"
  using format_2f_hundredths[of 75 7500] rhe_int[of 7500]
  by (simp add: format_pct_def str_nat_small str_nat_large digit_char_def)

lemma digit_char_in: "d < 10 \<Longrightarrow> digit_char d \<in> set ''0123456789''"
proof -
  assume "d < 10"
  then have "d \<in> {0, 1, 2, 3, 4, 5, 6, 7, 8, 9}" by auto
  then show ?thesis by (auto simp: digit_char_def)
qed

lemma str_nat_digits: "str_nat n \<noteq> [] \<and> set (str_nat n) \<subseteq> set ''0123456789''"
proof (induction n rule: str_nat.induct)
  case (1 n)
  show ?case
  proof (cases "n < 10")
    case True
    then show ?thesis using digit_char_in[of n] by (simp add: str_nat_small)
  next
    case False
    have "n mod 10 < 10" by simp
    then have "digit_char (n mod 10) \<in> set ''0123456789''" by (rule digit_char_in)
    then show ?thesis using 1[OF False] False by (simp add: str_nat_large)
  qed
qed

lemma hd_str_nat: "hd (str_nat n) \<in> set ''0123456789''"
  using str_nat_digits[of n] by (cases "str_nat n") auto

lemma hd_str_int: "hd (str_int i) \<noteq> CHR ''<''"
proof (cases "i < 0")
  case True
  then show ?thesis by (simp add: str_int_def)
next
  case False
  then have "hd (str_int i) \<in> set ''0123456789''" using hd_str_nat by (simp add: str_int_def)
  then show ?thesis by auto
qed

lemma str_int_nonempty: "str_int i \<noteq> []"
  using str_nat_digits by (simp add: str_int_def)

lemma binned_None: "binned_age_of None = ''<NA>-<NA> BP''"
  by (simp add: binned_age_of_def age_bin_lower_def int64_str_def)

lemma binned_Some_hd: "hd (binned_age_of (Some a)) \<noteq> CHR ''<''"
  using hd_str_int[of "\<lfloor>a / 1000\<rfloor> * 1000"] str_int_nonempty[of "\<lfloor>a / 1000\<rfloor> * 1000"]
  by (simp add: binned_age_of_def age_bin_lower_def int64_str_def Let_def)

lemma binned_Some_neq_None: "binned_age_of (Some a) \<noteq> ''<NA>-<NA> BP''"
  using binned_Some_hd[of a] by auto

lemma preprocess_Inr: "preprocess df = Inr d \<Longrightarrow> d = map add_group_columns df"
  by (auto simp: preprocess_def split: if_splits)

lemma haplo_add_group_columns: "haplo (add_group_columns s) = haplo s"
  by (simp add: add_group_columns_def)

lemma valid_row_in_groups:
  assumes "r \<in> set d" "spec_valid (haplo r)"
  shows "group_cols r \<in> set (groups (df_valid d))"
proof -
  have "r \<in> set (valid_records d (group_cols r))" using assms by (simp add: valid_records_def)
  then have "valid_records d (group_cols r) \<noteq> []" by auto
  then show ?thesis by (simp add: groups_valid_records)
qed

lemma run_success:
  assumes "preprocess df = Inr d" "df_valid d \<noteq> []"
  shows "run df = Inr (warnings (df_valid d),
              \<lparr>columns = final_cols (df_valid d),
               rows = map (make_row (df_valid d)) (groups (df_valid d))\<rparr>)"
proof -
  from assms(2) obtain r where r: "r \<in> set (df_valid d)" by (cases "df_valid d") auto
  then have "r \<in> set d" and "spec_valid (haplo r)"
    by (simp_all add: df_valid_filter passes_filters_spec)
  then have "\<not> list_all (\<lambda>r. strip (haplo r) = []) d"
    using spec_valid_strip by (auto simp: list_all_iff)
  then show ?thesis
    using assms(1) make_haplo_table_success[OF assms(2)] by (simp add: run_def)
qed

lemma pre_missing_age:
  "preprocess ex_missing_age
   = Inr [mk_row ''X'' (Some 500) None None ''A1'', mk_row ''Y'' None None None ''B'']"
  by (simp add: preprocess_def ex_missing_age_def mk_row_def mk_sample_def)

lemma group_cols_mk_row_None: "group_cols (mk_row e None la lo h) = (e @ '' <NA>-<NA> BP'', e, ''<NA>-<NA> BP'')"
  by (simp add: mk_row_def mk_sample_def add_group_columns_def binned_None group_cols_def)

lemma dv_missing_age:
  "df_valid [mk_row ''X'' (Some 500) None None ''A1'', mk_row ''Y'' None None None ''B'']
   = [mk_row ''X'' (Some 500) None None ''A1'', mk_row ''Y'' None None None ''B'']"
  by (simp add: df_valid_filter passes_filters_spec haplo_mk_row sv1)

lemma groups_missing_age:
  "groups (df_valid [mk_row ''X'' (Some 500) None None ''A1'', mk_row ''Y'' None None None ''B''])
   = [gX, gNA]"
  unfolding dv_missing_age groups_eq
  by (simp add: basal_keys_def haplo_mk_row hb1 group_cols_mk_row_500 group_cols_mk_row_None gX_def gNA_def)

lemma vr_missing_age:
  "valid_records [mk_row ''X'' (Some 500) None None ''A1'', mk_row ''Y'' None None None ''B''] gNA
   = [mk_row ''Y'' None None None ''B'']"
  by (simp add: valid_records_def gNA_def group_cols_mk_row_500 group_cols_mk_row_None haplo_mk_row sv1)

lemma total_count_pos: "g \<in> set (groups (df_valid df)) \<Longrightarrow> 0 < total_count (df_valid df) g"
  by (simp add: total_count_records groups_valid_records)

lemma zero_total_warning_iff: "zero_total_warning ts = (if 0 \<in> set ts then [ZeroTotal] else [])"
  by (auto simp: zero_total_warning_def list_ex_iff)

lemma warnings_begin:
  "\<exists>rest. warnings dv = zero_total_warning (map (total_count dv) (groups dv)) @ rest"
  by (simp add: warnings_def)

















section \<open>The properties of the specification\<close>

subsection \<open>C5: validity of a haplogroup code\<close>

text \<open>
  Claim C5. The two filters that build \<^verbatim>\<open>df_valid\<close> accept a code exactly when the
  specification calls it valid: after trimming, one character, or at least two with a
  digit in second place, and none of the five placeholder tokens. A record with an
  invalid code changes no basal count, no subclade count cell and no total, and the
  table is the one built without that record.
\<close>

theorem invalid_codes_are_excluded:
  "(\<forall>h. passes_filters h = spec_valid h)
   \<and> (\<not> spec_valid (haplo x) \<longrightarrow>
        count_basal (df_valid (xs @ x # ys)) g b = count_basal (df_valid (xs @ ys)) g b
      \<and> sub_cell (df_valid (xs @ x # ys)) g s = sub_cell (df_valid (xs @ ys)) g s
      \<and> total (df_valid (xs @ x # ys)) g = total (df_valid (xs @ ys)) g
      \<and> (\<forall>T. make_haplo_table (xs @ x # ys) = Inr T \<longrightarrow> make_haplo_table (xs @ ys) = Inr T))"
proof (intro conjI allI impI)
  fix h show "passes_filters h = spec_valid h" by (rule passes_filters_spec)
next
  assume inv: "\<not> spec_valid (haplo x)"
  then have dv: "df_valid (xs @ x # ys) = df_valid (xs @ ys)" by (rule df_valid_drop_invalid)
  show "count_basal (df_valid (xs @ x # ys)) g b = count_basal (df_valid (xs @ ys)) g b"
    by (simp only: dv)
  show "sub_cell (df_valid (xs @ x # ys)) g s = sub_cell (df_valid (xs @ ys)) g s"
    by (simp only: dv)
  show "total (df_valid (xs @ x # ys)) g = total (df_valid (xs @ ys)) g"
    by (simp only: dv)
  fix T assume ok: "make_haplo_table (xs @ x # ys) = Inr T"
  obtain ws t where T: "T = (ws, t)" by (cases T) auto
  from make_haplo_table_Inr[OF ok[unfolded T]] have ne: "df_valid (xs @ x # ys) \<noteq> []" by blast
  have "df_valid (xs @ ys) \<noteq> []" using ne unfolding dv .
  then have a: "make_haplo_table (xs @ ys) =
         Inr (warnings (df_valid (xs @ ys)),
              \<lparr>columns = final_cols (df_valid (xs @ ys)),
               rows = map (make_row (df_valid (xs @ ys))) (groups (df_valid (xs @ ys)))\<rparr>)"
    by (rule make_haplo_table_success)
  have "make_haplo_table (xs @ x # ys) =
         Inr (warnings (df_valid (xs @ ys)),
              \<lparr>columns = final_cols (df_valid (xs @ ys)),
               rows = map (make_row (df_valid (xs @ ys))) (groups (df_valid (xs @ ys)))\<rparr>)"
    using make_haplo_table_success[OF ne] by (simp only: dv)
  with ok a show "make_haplo_table (xs @ ys) = Inr T" by simp
qed

theorem invalid_codes_are_excluded_witness:
  "\<not> spec_valid (haplo (mk_row ''X'' (Some 500) (Some 50) (Some 60) ''n/a''))
   \<and> total (df_valid ex_placeholder) gX
     = total (df_valid [mk_row ''X'' (Some 500) (Some 10) (Some 20) ''A1'']) gX
   \<and> count_basal (df_valid ex_placeholder) gX ''N''
     = count_basal (df_valid [mk_row ''X'' (Some 500) (Some 10) (Some 20) ''A1'']) gX ''N''"
proof -
  have inv: "\<not> spec_valid (haplo (mk_row ''X'' (Some 500) (Some 50) (Some 60) ''n/a''))"
    by (simp add: haplo_mk_row sv1)
  have ex: "ex_placeholder = [mk_row ''X'' (Some 500) (Some 10) (Some 20) ''A1'']
              @ mk_row ''X'' (Some 500) (Some 50) (Some 60) ''n/a'' # []"
    by (simp add: ex_placeholder_def)
  show ?thesis
    using inv invalid_codes_are_excluded[of "mk_row ''X'' (Some 500) (Some 50) (Some 60) ''n/a''"
        "[mk_row ''X'' (Some 500) (Some 10) (Some 20) ''A1'']" "[]" gX "''N''" "''A1''"]
    unfolding ex by simp
qed

subsection \<open>C10: the basal letter is read from the untrimmed cell\<close>

text \<open>
  Claim C10. Validity and the subclade are computed on the trimmed cell, the basal
  letter on the raw one. A record whose code is valid after trimming but starts with a
  whitespace character is therefore counted under a basal column named by that
  whitespace character, not under the first letter of the trimmed code, while its
  subclade is the first two characters of the trimmed code, upper-cased: the parent
  letter of the subclade differs from the basal letter of the same record.
\<close>

theorem basal_letter_read_from_untrimmed_cell:
  fixes df :: "row list"
  assumes "r \<in> set df" and "spec_valid (haplo r)" and "leading_space (haplo r)"
  shows "haplo_basal_of (haplo r) = Some [hd (haplo r)] \<and> isspace (hd (haplo r))
       \<and> haplo_basal_of (haplo r) \<noteq> Some [upper_char (hd (strip (haplo r)))]
       \<and> [hd (haplo r)] \<in> set (basal_letters (df_valid df))
       \<and> 1 \<le> count_basal (df_valid df) (group_cols r) [hd (haplo r)]
       \<and> (2 \<le> length (strip (haplo r)) \<longrightarrow>
            parse_subclade (haplo r) = Some (upper (take 2 (strip (haplo r))))
          \<and> parent_letter (upper (take 2 (strip (haplo r)))) = [upper_char (hd (strip (haplo r)))]
          \<and> haplo_basal_of (haplo r) \<noteq> Some (parent_letter (upper (take 2 (strip (haplo r))))))"
proof -
  let ?h = "haplo r"
  from assms(3) obtain c t where h: "?h = c # t" and sp: "isspace c"
    by (cases ?h) (auto simp: leading_space_def)
  have basal: "haplo_basal_of ?h = Some [hd ?h]"
    using h sp by (simp add: haplo_basal_of_def isspace_upper)
  have ne: "strip ?h \<noteq> []" using assms(2) by (rule spec_valid_strip)
  have "\<not> isspace (upper_char (hd (strip ?h)))"
    using hd_strip_not_space[OF ne] by (rule upper_not_space)
  with sp h have diff: "[hd ?h] \<noteq> [upper_char (hd (strip ?h))]" by auto
  have rv: "r \<in> set (df_valid df)" using assms(1,2) by (rule spec_valid_df_valid)
  have mem: "[hd ?h] \<in> set (basal_letters (df_valid df))"
    unfolding basal_letters_mem using rv basal by blast
  have cnt: "1 \<le> count_basal (df_valid df) (group_cols r) [hd ?h]"
    using rv basal by (rule count_basal_pos)
  have sub: "2 \<le> length (strip ?h) \<longrightarrow>
            parse_subclade ?h = Some (upper (take 2 (strip ?h)))
          \<and> parent_letter (upper (take 2 (strip ?h))) = [upper_char (hd (strip ?h))]
          \<and> haplo_basal_of ?h \<noteq> Some (parent_letter (upper (take 2 (strip ?h))))"
    using parse_subclade_valid[OF assms(2)] parent_letter_sub[of "strip ?h"] basal diff by simp
  show ?thesis using basal sp h diff mem cnt sub by simp
qed

theorem basal_letter_read_from_untrimmed_cell_witness:
  "mk_row ''X'' (Some 500) None None '' A1'' \<in> set ex_untrimmed
   \<and> spec_valid '' A1'' \<and> leading_space '' A1''
   \<and> haplo_basal_of '' A1'' = Some '' ''
   \<and> parse_subclade '' A1'' = Some ''A1''
   \<and> parent_letter ''A1'' = ''A''
   \<and> '' '' \<in> set (basal_letters (df_valid ex_untrimmed))
   \<and> 1 \<le> count_basal (df_valid ex_untrimmed) gX '' ''"
proof -
  let ?r = "mk_row ''X'' (Some 500) None None '' A1''"
  have m: "?r \<in> set ex_untrimmed" by (simp add: ex_untrimmed_def)
  have v: "spec_valid (haplo ?r)" by (simp add: haplo_mk_row sv1)
  have l: "leading_space (haplo ?r)" by (simp add: haplo_mk_row leading_space_def isspace_def)
  have s: "strip '' A1'' = ''A1''" by (simp add: strip_def isspace_def)
  have p: "parent_letter ''A1'' = ''A''" by (simp add: parent_letter_def upper_def upper_char_def)
  show ?thesis
    using basal_letter_read_from_untrimmed_cell[OF m v l] m v l
    by (simp add: haplo_mk_row s p ps1 hb1 group_cols_mk_row_500 gX_def)
qed

subsection \<open>C1: what the \<^verbatim>\<open>Total\<close> column counts\<close>

text \<open>
  Claim C1 says that \<^verbatim>\<open>Total\<close> is the sum of the raw basal counts of the group, which is
  the number of its valid records, and that subclade occurrences are never added a second
  time. The sum of the basal counts is indeed the number of valid records, but step 9 of
  \<^verbatim>\<open>make_haplo_table\<close> recalculates \<^verbatim>\<open>Total\<close> as that sum plus the sum of the subclade count
  columns, as its docstring announces. In the scenario of the specification (codes A1, A2,
  B in one group) the column holds 5, not 3.
\<close>

theorem total_is_basal_sum_counterexample:
  "groups (df_valid ex_scenario) = [gX]
   \<and> length (valid_records ex_scenario gX) = 3
   \<and> total_count (df_valid ex_scenario) gX = 3
   \<and> map total_cell (map (make_row (df_valid ex_scenario)) (groups (df_valid ex_scenario))) = [5]"
proof -
  have "total_cell (make_row (df_valid ex_scenario) gX) = 5"
    using total_cell_records[OF nl_scenario, of gX] by (simp add: len_vr_scenario len_subs_scenario)
  moreover have "total_count (df_valid ex_scenario) gX = 3"
    unfolding total_count_records by (simp add: len_vr_scenario)
  ultimately show ?thesis by (simp add: groups_scenario len_vr_scenario)
qed

text \<open>
  Claim C1 as amended: for every group of the output table, the sum of the raw basal
  counts equals the number of valid records of the group, and \<^verbatim>\<open>Total\<close> is that number
  plus the number of those records that carry a subclade (each such record is counted
  twice). Stated for inputs whose codes have no leading whitespace.
\<close>

theorem total_adds_subclade_counts:
  assumes "make_haplo_table df = Inr (ws, t)"
    and "(g, r) \<in> set (zip (groups (df_valid df)) (rows t))"
    and "\<forall>x\<in>set df. \<not> leading_space (haplo x)"
  shows "(\<Sum>b\<leftarrow>basal_letters (df_valid df). count_basal (df_valid df) g b)
           = of_nat (length (valid_records df g))
       \<and> total_cell r = int (length (valid_records df g))
                        + int (length (with_any_subclade (valid_records df g)))"
proof -
  from row_of_group[OF assms(1,2)] have r: "r = make_row (df_valid df) g" by simp
  show ?thesis unfolding r using sum_basal_records total_cell_records[OF assms(3)] by simp
qed

theorem total_adds_subclade_counts_witness:
  "make_haplo_table ex_scenario =
     Inr (warnings (df_valid ex_scenario),
          \<lparr>columns = final_cols (df_valid ex_scenario),
           rows = map (make_row (df_valid ex_scenario)) (groups (df_valid ex_scenario))\<rparr>)
   \<and> (gX, make_row (df_valid ex_scenario) gX)
       \<in> set (zip (groups (df_valid ex_scenario))
                  (map (make_row (df_valid ex_scenario)) (groups (df_valid ex_scenario))))
   \<and> list_all (\<lambda>x. \<not> leading_space (haplo x)) ex_scenario
   \<and> total_cell (make_row (df_valid ex_scenario) gX) = 3 + 2"
proof -
  have ne: "df_valid ex_scenario \<noteq> []" unfolding dv_scenario by (simp add: ex_scenario_def)
  note ok = make_haplo_table_success[OF ne]
  have z: "(gX, make_row (df_valid ex_scenario) gX)
       \<in> set (zip (groups (df_valid ex_scenario))
                  (rows \<lparr>columns = final_cols (df_valid ex_scenario),
           rows = map (make_row (df_valid ex_scenario)) (groups (df_valid ex_scenario))\<rparr>))"
    by (simp add: groups_scenario)
  have "total_cell (make_row (df_valid ex_scenario) gX) = 3 + 2"
    using total_adds_subclade_counts[OF ok z nl_scenario]
    by (simp add: len_vr_scenario len_subs_scenario)
  with ok z nl_scenario show ?thesis by (simp add: list_all_iff)
qed

subsection \<open>C8: column order\<close>

text \<open>
  Claim C8. The columns of every output table are the five metadata columns in their
  fixed order, then the haplogroup columns, then \<^verbatim>\<open>Total\<close>. Among the haplogroup columns
  the one-character ones are exactly the basal letters in strictly ascending order, the
  first column is a basal letter, and every column stands where \<^const>\<open>column_follows\<close>
  allows: a subclade column directly after its own basal letter or after a smaller
  subclade of the same letter, a basal letter after a column of a smaller letter. Every
  row lists its haplogroup cells in that order.
\<close>

theorem column_order:
  assumes "make_haplo_table df = Inr (ws, t)"
  shows "columns t = [''Ancient pop name'', ''Country'', ''Age'', ''Lat'', ''Long'']
                     @ haplo_order (df_valid df) @ [''Total'']
       \<and> list_all (\<lambda>r. map fst (haplo_cells r) = haplo_order (df_valid df)) (rows t)
       \<and> filter (\<lambda>c. length c = 1) (haplo_order (df_valid df)) = basal_letters (df_valid df)
       \<and> sorted_wrt (<) (basal_letters (df_valid df))
       \<and> set (haplo_order (df_valid df)) \<subseteq> set (basal_letters (df_valid df)) \<union> set (subclade_cols (df_valid df))
       \<and> haplo_order (df_valid df) \<noteq> [] \<and> length (hd (haplo_order (df_valid df))) = 1
       \<and> successively column_follows (haplo_order (df_valid df))"
proof -
  from make_haplo_table_Inr[OF assms]
  have ne: "df_valid df \<noteq> []" and c: "columns t = final_cols (df_valid df)"
    and r: "rows t = map (make_row (df_valid df)) (groups (df_valid df))" by simp_all
  have c': "columns t = [''Ancient pop name'', ''Country'', ''Age'', ''Lat'', ''Long'']
                     @ haplo_order (df_valid df) @ [''Total'']"
    unfolding c final_cols_eq by (simp add: base_cols_def)
  have r': "list_all (\<lambda>r. map fst (haplo_cells r) = haplo_order (df_valid df)) (rows t)"
    unfolding r list_all_iff by (auto simp: haplo_cells_eq comp_def)
  have s: "set (haplo_order (df_valid df)) \<subseteq> set (basal_letters (df_valid df)) \<union> set (subclade_cols (df_valid df))"
    unfolding haplo_order_set by blast
  note n = haplo_order_nonempty[OF ne]
  from c' r' s n haplo_order_hd[OF n] haplo_order_basal[of "df_valid df"]
    basal_letters_strict[of "df_valid df"] haplo_order_follows[of "df_valid df"]
  show ?thesis by blast
qed

theorem column_order_witness:
  "make_haplo_table ex_scenario =
     Inr (warnings (df_valid ex_scenario),
          \<lparr>columns = final_cols (df_valid ex_scenario),
           rows = map (make_row (df_valid ex_scenario)) (groups (df_valid ex_scenario))\<rparr>)
   \<and> final_cols (df_valid ex_scenario)
       = [''Ancient pop name'', ''Country'', ''Age'', ''Lat'', ''Long'',
          ''A'', ''A1'', ''A2'', ''B'', ''Total'']
   \<and> map fst (haplo_cells (make_row (df_valid ex_scenario) gX)) = [''A'', ''A1'', ''A2'', ''B'']
   \<and> successively column_follows [''A'', ''A1'', ''A2'', ''B'']"
proof -
  have ne: "df_valid ex_scenario \<noteq> []" unfolding dv_scenario by (simp add: ex_scenario_def)
  note ok = make_haplo_table_success[OF ne]
  note th = column_order[OF ok]
  from th have "final_cols (df_valid ex_scenario)
       = [''Ancient pop name'', ''Country'', ''Age'', ''Lat'', ''Long'',
          ''A'', ''A1'', ''A2'', ''B'', ''Total'']"
    by (simp add: haplo_order_scenario)
  moreover from th have "map fst (haplo_cells (make_row (df_valid ex_scenario) gX)) = [''A'', ''A1'', ''A2'', ''B'']"
    by (simp add: haplo_order_scenario groups_scenario)
  moreover from th have "successively column_follows [''A'', ''A1'', ''A2'', ''B'']"
    by (simp only: haplo_order_scenario)
  ultimately show ?thesis using ok by simp
qed

subsection \<open>C9: cells of the haplogroup columns\<close>

text \<open>
  Claim C9 says that the cell of a subclade column is left blank in the row of a group
  that has no record with that subclade. The formatter does render a missing value as
  the empty string, but no haplogroup cell is missing when it is applied: step 10 fills
  the subclade counts that the left merge left empty with 0 before the percentage is
  computed, so the cell reads \<^verbatim>\<open>0.00%\<close>. With one record A1 in group X and one record B
  in group Y, the cell of column A1 in the row of Y is \<^verbatim>\<open>0.00%\<close>.
\<close>

theorem blank_subclade_cell_counterexample:
  "gY \<in> set (groups (df_valid ex_two_groups))
   \<and> valid_records ex_two_groups gY = [mk_row ''Y'' (Some 500) None None ''B'']
   \<and> ''A1'' \<in> set (subclade_cols (df_valid ex_two_groups))
   \<and> with_subclade ''A1'' (valid_records ex_two_groups gY) = []
   \<and> haplo_cells (make_row (df_valid ex_two_groups) gY)
       = [(''A'', ''0.00%''), (''A1'', ''0.00%''), (''B'', ''100.00%'')]"
proof -
  let ?dv = "df_valid ex_two_groups"
  have a1: "haplo_value ?dv gY ''A1'' = Some 0"
    using sub_pct_absent[OF no_A1_in_Y] by (simp add: haplo_value_def subclade_cols_two_groups)
  have cA: "count_basal ?dv gY ''A'' = 0" and cB: "count_basal ?dv gY ''B'' = 1"
    unfolding count_basal_records vr_two_groups_Y
    by (simp_all add: with_basal_def haplo_mk_row hb1)
  have tc: "total_count ?dv gY = 1"
    unfolding total_count_records vr_two_groups_Y by simp
  have a: "haplo_value ?dv gY ''A'' = Some 0" and b: "haplo_value ?dv gY ''B'' = Some 100"
    by (simp_all add: haplo_value_def subclade_cols_two_groups basal_pct_def pct_where_def cA cB tc)
  have f100: "format_pct (Some 100) = ''100.00%''"
    using format_2f_hundredths[of 100 10000] rhe_int[of 10000]
    by (simp add: format_pct_def str_nat_small str_nat_large digit_char_def)
  have cells: "haplo_cells (make_row ?dv gY) = [(''A'', ''0.00%''), (''A1'', ''0.00%''), (''B'', ''100.00%'')]"
    unfolding haplo_cells_eq haplo_order_two_groups by (simp add: a a1 b fmt_0 f100)
  have g: "gY \<in> set (groups ?dv)" by (simp add: groups_two_groups)
  have sc: "''A1'' \<in> set (subclade_cols ?dv)" by (simp add: subclade_cols_two_groups)
  from g vr_two_groups_Y sc no_A1_in_Y cells show ?thesis by blast
qed

text \<open>
  Claim C9 as amended: every haplogroup cell of every row is a number with two decimals
  followed by \<^verbatim>\<open>%\<close> and is never blank; in particular, the cell of a subclade column in
  the row of a group that has no record with that subclade is \<^verbatim>\<open>0.00%\<close>.
\<close>

theorem haplogroup_cells_are_never_blank:
  assumes "make_haplo_table df = Inr (ws, t)"
    and "(g, r) \<in> set (zip (groups (df_valid df)) (rows t))"
    and "(c, v) \<in> set (haplo_cells r)"
  shows "(\<exists>n d1 d2. d1 < 10 \<and> d2 < 10 \<and> v = str_nat n @ ''.'' @ [digit_char d1, digit_char d2] @ ''%'')
       \<and> v \<noteq> []
       \<and> (c \<in> set (subclade_cols (df_valid df)) \<and> with_subclade c (valid_records df g) = []
            \<longrightarrow> v = ''0.00%'')"
proof -
  from row_of_group[OF assms(1,2)] have r: "r = make_row (df_valid df) g" by simp
  from haplo_cell_mem[OF assms(3)[unfolded r]]
  have v: "v = format_pct (haplo_value (df_valid df) g c)" by simp
  obtain x where x: "0 \<le> x" "haplo_value (df_valid df) g c = Some x"
    using haplo_value_nonneg by blast
  from format_pct_shape[OF x(1)]
  have shape: "\<exists>n d1 d2. d1 < 10 \<and> d2 < 10 \<and> v = str_nat n @ ''.'' @ [digit_char d1, digit_char d2] @ ''%''"
    unfolding v x(2) .
  then have nb: "v \<noteq> []" by auto
  have z: "c \<in> set (subclade_cols (df_valid df)) \<and> with_subclade c (valid_records df g) = []
            \<longrightarrow> v = ''0.00%''"
  proof
    assume h: "c \<in> set (subclade_cols (df_valid df)) \<and> with_subclade c (valid_records df g) = []"
    then have "haplo_value (df_valid df) g c = Some 0"
      using sub_pct_absent[of c df g] by (simp add: haplo_value_def)
    then show "v = ''0.00%''" unfolding v by (simp add: fmt_0)
  qed
  from shape nb z show ?thesis by blast
qed

theorem haplogroup_cells_are_never_blank_witness:
  "make_haplo_table ex_two_groups =
     Inr (warnings (df_valid ex_two_groups),
          \<lparr>columns = final_cols (df_valid ex_two_groups),
           rows = map (make_row (df_valid ex_two_groups)) (groups (df_valid ex_two_groups))\<rparr>)
   \<and> (gY, make_row (df_valid ex_two_groups) gY)
       \<in> set (zip (groups (df_valid ex_two_groups))
                  (map (make_row (df_valid ex_two_groups)) (groups (df_valid ex_two_groups))))
   \<and> (''A1'', format_pct (haplo_value (df_valid ex_two_groups) gY ''A1''))
       \<in> set (haplo_cells (make_row (df_valid ex_two_groups) gY))
   \<and> ''A1'' \<in> set (subclade_cols (df_valid ex_two_groups))
   \<and> with_subclade ''A1'' (valid_records ex_two_groups gY) = []
   \<and> format_pct (haplo_value (df_valid ex_two_groups) gY ''A1'') = ''0.00%''"
proof -
  have ne: "df_valid ex_two_groups \<noteq> []" unfolding dv_two_groups by (simp add: ex_two_groups_def)
  note ok = make_haplo_table_success[OF ne]
  have z: "(gY, make_row (df_valid ex_two_groups) gY)
       \<in> set (zip (groups (df_valid ex_two_groups))
                  (rows \<lparr>columns = final_cols (df_valid ex_two_groups),
           rows = map (make_row (df_valid ex_two_groups)) (groups (df_valid ex_two_groups))\<rparr>))"
    by (simp add: groups_two_groups)
  have m: "(''A1'', format_pct (haplo_value (df_valid ex_two_groups) gY ''A1''))
       \<in> set (haplo_cells (make_row (df_valid ex_two_groups) gY))"
    unfolding haplo_cells_eq haplo_order_two_groups by simp
  have s: "''A1'' \<in> set (subclade_cols (df_valid ex_two_groups))"
    by (simp add: subclade_cols_two_groups)
  from haplogroup_cells_are_never_blank[OF ok z m] s no_A1_in_Y
  have "format_pct (haplo_value (df_valid ex_two_groups) gY ''A1'') = ''0.00%''" by blast
  with ok z m s no_A1_in_Y show ?thesis by simp
qed

subsection \<open>C4: the subclade percentages of one basal letter\<close>




subsection \<open>C2: subclade percentages\<close>

text \<open>
  Claim C2. The percentage of a subclade is \<open>100 * subclade_count[g, s] / basal_count[g, b]\<close>,
  the denominator being the raw count of the parent letter in the same group. The
  script computes exactly this for codes without leading whitespace (lemma
  \<open>subclade_percentage_without_leading_space\<close>). It departs from it on the input
  \<^const>\<open>ex_untrimmed\<close>, three records of one group with the cells \<^verbatim>\<open>A1\<close>, \<^verbatim>\<open>A1\<close> and
  \<^verbatim>\<open> A1\<close>: the third record is grouped under the basal letter \<^verbatim>\<open> \<close>, so \<^verbatim>\<open>grouped_sub\<close> has
  two lines for the subclade A1, with counts 2 and 1, and \<^verbatim>\<open>pivot_table\<close>, whose default
  aggregation is the mean, turns them into the count 3/2. The cell of A1 is then
  \<open>100 * (3/2) / 2 = 75\<close> percent, although three records carry the subclade A1, two of
  them under the letter A, whose count is 2.
\<close>

theorem subclade_percentage_of_untrimmed_codes:
  "length (with_subclade ''A1'' (valid_records ex_untrimmed gX)) = 3
   \<and> length (with_subclade ''A1'' (with_basal ''A'' (valid_records ex_untrimmed gX))) = 2
   \<and> count_basal (df_valid ex_untrimmed) gX ''A'' = 2
   \<and> sub_cell (df_valid ex_untrimmed) gX ''A1'' = Some (3 / 2)
   \<and> sub_pct (df_valid ex_untrimmed) gX ''A1'' = 75
   \<and> haplo_cells (make_row (df_valid ex_untrimmed) gX)
       = [('' '', format_pct (Some (basal_pct (df_valid ex_untrimmed) gX '' '')))
         ,(''A'', format_pct (Some (basal_pct (df_valid ex_untrimmed) gX ''A'')))
         ,(''A1'', ''75.00%'')]"
proof -
  have n3: "length (with_subclade ''A1'' (valid_records ex_untrimmed gX)) = 3"
    unfolding vr_untrimmed by (simp add: with_subclade_def ex_untrimmed_def haplo_mk_row ps1)
  have n2: "length (with_subclade ''A1'' (with_basal ''A'' (valid_records ex_untrimmed gX))) = 2"
    unfolding vr_untrimmed
    by (simp add: with_subclade_def with_basal_def ex_untrimmed_def haplo_mk_row ps1 hb1)
  have cells: "haplo_cells (make_row (df_valid ex_untrimmed) gX)
       = [('' '', format_pct (Some (basal_pct (df_valid ex_untrimmed) gX '' '')))
         ,(''A'', format_pct (Some (basal_pct (df_valid ex_untrimmed) gX ''A'')))
         ,(''A1'', ''75.00%'')]"
    unfolding haplo_cells_eq haplo_order_untrimmed
    by (simp add: haplo_value_def subclade_cols_untrimmed sub_pct_untrimmed fmt_75)
  from n3 n2 count_A_untrimmed sub_cell_untrimmed sub_pct_untrimmed cells show ?thesis by blast
qed

subsection \<open>C6: records with an undefined age\<close>

text \<open>
  Claim C6 says that a record whose age is undefined joins no group. The script has no
  step that removes such a record. Its bin bound is the missing value of the nullable
  integer column, which \<^verbatim>\<open>.astype(str)\<close> renders as the text \<^verbatim>\<open><NA>\<close> (pandas 1 and 2, the
  versions the script was written for), so the record gets the bin label
  \<^verbatim>\<open><NA>-<NA> BP\<close> and the population name of its political entity followed by that
  label, and it is grouped under them. With a record A1 of age 500 in X and a record B
  without age in Y, the table has a row for the group \<^verbatim>\<open>Y <NA>-<NA> BP\<close>, made of the
  record without age.
\<close>

theorem undefined_age_joins_no_group_counterexample:
  "age_numeric (mk_sample ''Y'' None None None ''B'') = None
   \<and> preprocess ex_missing_age
       = Inr [mk_row ''X'' (Some 500) None None ''A1'', mk_row ''Y'' None None None ''B'']
   \<and> run ex_missing_age
       = Inr (warnings (df_valid [mk_row ''X'' (Some 500) None None ''A1'', mk_row ''Y'' None None None ''B'']),
              \<lparr>columns = final_cols (df_valid [mk_row ''X'' (Some 500) None None ''A1'', mk_row ''Y'' None None None ''B'']),
               rows = map (make_row (df_valid [mk_row ''X'' (Some 500) None None ''A1'', mk_row ''Y'' None None None ''B'']))
                          [gX, gNA]\<rparr>)
   \<and> valid_records [mk_row ''X'' (Some 500) None None ''A1'', mk_row ''Y'' None None None ''B''] gNA
       = [mk_row ''Y'' None None None ''B'']
   \<and> pop_name (make_row (df_valid [mk_row ''X'' (Some 500) None None ''A1'', mk_row ''Y'' None None None ''B'']) gNA)
       = ''Y <NA>-<NA> BP''"
proof -
  let ?d = "[mk_row ''X'' (Some 500) None None ''A1'', mk_row ''Y'' None None None ''B'']"
  have ne: "df_valid ?d \<noteq> []" unfolding dv_missing_age by simp
  have r: "run ex_missing_age
       = Inr (warnings (df_valid ?d),
              \<lparr>columns = final_cols (df_valid ?d),
               rows = map (make_row (df_valid ?d)) [gX, gNA]\<rparr>)"
    using run_success[OF pre_missing_age ne] unfolding groups_missing_age .
  have a: "age_numeric (mk_sample ''Y'' None None None ''B'') = None" by (simp add: mk_sample_def)
  have p: "pop_name (make_row (df_valid ?d) gNA) = ''Y <NA>-<NA> BP''"
    by (simp add: make_row_def gNA_def)
  from a pre_missing_age r vr_missing_age p show ?thesis by blast
qed

text \<open>
  Claim C6 as amended: a record whose age is undefined is not coerced to the 0-1000 bin
  nor to any other numeric bin, and it is not excluded either: preprocessing keeps it,
  its bin label is \<^verbatim>\<open><NA>-<NA> BP\<close>, its population name is its political entity followed
  by that label, and when its haplogroup code is valid its group is a row of the output
  table. (When every age is undefined the run stops before any grouping.)
\<close>

theorem undefined_age_forms_its_own_group:
  assumes "preprocess df = Inr d" and "s \<in> set df" and "age_numeric s = None"
  shows "add_group_columns s \<in> set d
       \<and> length d = length df
       \<and> binned_age (add_group_columns s) = ''<NA>-<NA> BP''
       \<and> ancient_pop_name (add_group_columns s) = political_entity s @ '' <NA>-<NA> BP''
       \<and> binned_age (add_group_columns s) \<noteq> ''0-1000 BP''
       \<and> (\<forall>a. binned_age (add_group_columns s) \<noteq> binned_age_of (Some a))
       \<and> (spec_valid (haplo s) \<longrightarrow>
            group_cols (add_group_columns s) \<in> set (groups (df_valid d))
          \<and> run df = Inr (warnings (df_valid d),
                          \<lparr>columns = final_cols (df_valid d),
                           rows = map (make_row (df_valid d)) (groups (df_valid d))\<rparr>))"
proof -
  from preprocess_Inr[OF assms(1)] have d: "d = map add_group_columns df" .
  have m: "add_group_columns s \<in> set d" using assms(2) d by simp
  have b: "binned_age (add_group_columns s) = ''<NA>-<NA> BP''"
    using assms(3) by (simp add: add_group_columns_def binned_None)
  have n: "ancient_pop_name (add_group_columns s) = political_entity s @ '' <NA>-<NA> BP''"
    using assms(3) by (simp add: add_group_columns_def binned_None)
  have z: "binned_age (add_group_columns s) \<noteq> ''0-1000 BP''" unfolding b by simp
  have q: "\<forall>a. binned_age (add_group_columns s) \<noteq> binned_age_of (Some a)"
    unfolding b using binned_Some_neq_None by metis
  have v: "spec_valid (haplo s) \<longrightarrow>
            group_cols (add_group_columns s) \<in> set (groups (df_valid d))
          \<and> run df = Inr (warnings (df_valid d),
                          \<lparr>columns = final_cols (df_valid d),
                           rows = map (make_row (df_valid d)) (groups (df_valid d))\<rparr>)"
  proof
    assume "spec_valid (haplo s)"
    then have sv: "spec_valid (haplo (add_group_columns s))" by (simp add: haplo_add_group_columns)
    have g: "group_cols (add_group_columns s) \<in> set (groups (df_valid d))"
      using m sv by (rule valid_row_in_groups)
    have "add_group_columns s \<in> set (df_valid d)" using m sv by (rule spec_valid_df_valid)
    then have "df_valid d \<noteq> []" by auto
    with g run_success[OF assms(1)]
    show "group_cols (add_group_columns s) \<in> set (groups (df_valid d))
          \<and> run df = Inr (warnings (df_valid d),
                          \<lparr>columns = final_cols (df_valid d),
                           rows = map (make_row (df_valid d)) (groups (df_valid d))\<rparr>)" by blast
  qed
  from m d b n z q v show ?thesis by simp
qed

theorem undefined_age_forms_its_own_group_witness:
  "preprocess ex_missing_age
     = Inr [mk_row ''X'' (Some 500) None None ''A1'', mk_row ''Y'' None None None ''B'']
   \<and> mk_sample ''Y'' None None None ''B'' \<in> set ex_missing_age
   \<and> age_numeric (mk_sample ''Y'' None None None ''B'') = None
   \<and> spec_valid (haplo (mk_sample ''Y'' None None None ''B''))
   \<and> binned_age (mk_row ''Y'' None None None ''B'') = ''<NA>-<NA> BP''
   \<and> gNA \<in> set (groups (df_valid [mk_row ''X'' (Some 500) None None ''A1'', mk_row ''Y'' None None None ''B'']))"
proof -
  let ?s = "mk_sample ''Y'' None None None ''B''"
  have m: "?s \<in> set ex_missing_age" by (simp add: ex_missing_age_def)
  have a: "age_numeric ?s = None" by (simp add: mk_sample_def)
  have v: "spec_valid (haplo ?s)" by (simp add: mk_sample_def sv1)
  note th = undefined_age_forms_its_own_group[OF pre_missing_age m a]
  have g: "group_cols (add_group_columns ?s) = gNA"
    using group_cols_mk_row_None[of "''Y''" None None "''B''"] by (simp add: mk_row_def gNA_def)
  from th v have "binned_age (mk_row ''Y'' None None None ''B'') = ''<NA>-<NA> BP''"
    by (simp add: mk_row_def)
  moreover from th v g
  have "gNA \<in> set (groups (df_valid [mk_row ''X'' (Some 500) None None ''A1'', mk_row ''Y'' None None None ''B'']))"
    by simp
  ultimately show ?thesis using pre_missing_age m a v by blast
qed

subsection \<open>C3: basal percentages\<close>

text \<open>
  Claim C3. For a group \<open>g\<close> of the table and a basal letter \<open>b\<close>, the cell of column \<open>b\<close>
  is the formatted value of \<open>100 * basal_count[g, b] / raw_total[g]\<close>, where the count is
  the number of valid records of \<open>g\<close> under \<open>b\<close> and \<open>raw_total[g]\<close> is the sum of the
  basal counts of \<open>g\<close>. The percentage is computed by \<open>pct_where\<close>, which gives 0 for every
  count when the total is not positive, and the warnings of the run begin with the
  result of \<open>zero_total_warning\<close> on the totals of the groups, which is the warning
  exactly when one of the totals is 0. (A group of the table has at least one valid
  record, hence a positive total.)
\<close>

theorem basal_percentage_of_group_total:
  assumes "make_haplo_table df = Inr (ws, t)"
    and "(g, r) \<in> set (zip (groups (df_valid df)) (rows t))"
    and "b \<in> set (basal_letters (df_valid df))"
  shows "(b, format_pct (Some (basal_pct (df_valid df) g b))) \<in> set (haplo_cells r)
       \<and> basal_pct (df_valid df) g b
           = pct_where (count_basal (df_valid df) g b) (total_count (df_valid df) g)
       \<and> (\<forall>c T. pct_where c T = (if 0 < T then 100 * c / T else 0))
       \<and> basal_pct (df_valid df) g b
           = (if total_count (df_valid df) g = 0 then 0
              else 100 * count_basal (df_valid df) g b / total_count (df_valid df) g)
       \<and> total_count (df_valid df) g
           = (\<Sum>b'\<leftarrow>basal_letters (df_valid df). count_basal (df_valid df) g b')
       \<and> count_basal (df_valid df) g b = of_nat (length (with_basal b (valid_records df g)))
       \<and> (\<exists>rest. ws = zero_total_warning (map (total_count (df_valid df)) (groups (df_valid df)))
                        @ rest)
       \<and> (\<forall>totals. zero_total_warning totals = (if 0 \<in> set totals then [ZeroTotal] else []))
       \<and> (ZeroTotal \<in> set ws \<longleftrightarrow> (\<exists>g'\<in>set (groups (df_valid df)). total_count (df_valid df) g' = 0))
       \<and> 0 < total_count (df_valid df) g"
proof -
  from row_of_group[OF assms(1,2)] have g: "g \<in> set (groups (df_valid df))"
    and r: "r = make_row (df_valid df) g" by simp_all
  from make_haplo_table_Inr[OF assms(1)] have ws: "ws = warnings (df_valid df)" by simp
  have d: "basal_pct (df_valid df) g b
           = pct_where (count_basal (df_valid df) g b) (total_count (df_valid df) g)"
    by (simp only: basal_pct_def)
  have f: "\<forall>c T. pct_where c T = (if 0 < T then 100 * c / T else (0 :: rat))"
    by (simp add: pct_where_def)
  have p: "basal_pct (df_valid df) g b
           = (if total_count (df_valid df) g = 0 then 0
              else 100 * count_basal (df_valid df) g b / total_count (df_valid df) g)"
    unfolding basal_pct_def using pct_where_if[OF total_count_nonneg] by simp
  have c: "(b, format_pct (Some (basal_pct (df_valid df) g b))) \<in> set (haplo_cells r)"
    unfolding r using assms(3) by (rule basal_cell)
  have s: "total_count (df_valid df) g
           = (\<Sum>b'\<leftarrow>basal_letters (df_valid df). count_basal (df_valid df) g b')"
    by (simp only: total_count_def)
  have b: "\<exists>rest. ws = zero_total_warning (map (total_count (df_valid df)) (groups (df_valid df)))
                        @ rest"
    unfolding ws by (rule warnings_begin)
  have z: "\<forall>totals. zero_total_warning totals = (if (0 :: rat) \<in> set totals then [ZeroTotal] else [])"
    using zero_total_warning_iff by blast
  have w: "ZeroTotal \<in> set ws \<longleftrightarrow> (\<exists>g'\<in>set (groups (df_valid df)). total_count (df_valid df) g' = 0)"
    unfolding ws by (rule zero_total_in_warnings)
  note k = count_basal_records[of df g b]
  note q = total_count_pos[OF g]
  show ?thesis
    apply (intro conjI)
    subgoal by (rule c)
    subgoal by (rule d)
    subgoal by (rule f)
    subgoal by (rule p)
    subgoal by (rule s)
    subgoal by (rule k)
    subgoal by (rule b)
    subgoal by (rule z)
    subgoal by (rule w)
    subgoal by (rule q)
    done
qed

theorem basal_percentage_of_group_total_witness:
  "make_haplo_table ex_scenario =
     Inr (warnings (df_valid ex_scenario),
          \<lparr>columns = final_cols (df_valid ex_scenario),
           rows = map (make_row (df_valid ex_scenario)) (groups (df_valid ex_scenario))\<rparr>)
   \<and> (gX, make_row (df_valid ex_scenario) gX)
       \<in> set (zip (groups (df_valid ex_scenario))
                  (map (make_row (df_valid ex_scenario)) (groups (df_valid ex_scenario))))
   \<and> ''A'' \<in> set (basal_letters (df_valid ex_scenario))
   \<and> basal_pct (df_valid ex_scenario) gX ''A'' = 200 / 3
   \<and> (''A'', ''66.67%'') \<in> set (haplo_cells (make_row (df_valid ex_scenario) gX))
   \<and> pct_where 2 0 = 0
   \<and> pct_where 2 3 = 200 / 3
   \<and> zero_total_warning [3, 0] = [ZeroTotal]
   \<and> zero_total_warning [3] = []"
proof -
  have ne: "df_valid ex_scenario \<noteq> []" unfolding dv_scenario by (simp add: ex_scenario_def)
  note ok = make_haplo_table_success[OF ne]
  have z: "(gX, make_row (df_valid ex_scenario) gX)
       \<in> set (zip (groups (df_valid ex_scenario))
                  (rows \<lparr>columns = final_cols (df_valid ex_scenario),
           rows = map (make_row (df_valid ex_scenario)) (groups (df_valid ex_scenario))\<rparr>))"
    by (simp add: groups_scenario)
  note th = basal_percentage_of_group_total[OF ok z basal_A_scenario]
  have c: "count_basal (df_valid ex_scenario) gX ''A'' = 2"
    using th by (simp add: len_basal_A_scenario)
  have tc: "total_count (df_valid ex_scenario) gX = 3"
    unfolding total_count_records by (simp add: len_vr_scenario)
  have f: "\<forall>c T. pct_where c T = (if 0 < T then 100 * c / T else (0 :: rat))"
    using th by blast
  have w: "\<forall>totals. zero_total_warning totals = (if (0 :: rat) \<in> set totals then [ZeroTotal] else [])"
    using th by blast
  have p: "basal_pct (df_valid ex_scenario) gX ''A'' = 200 / 3"
    using th c tc by simp
  have cell: "(''A'', ''66.67%'') \<in> set (haplo_cells (make_row (df_valid ex_scenario) gX))"
    using th unfolding p fmt_66 by simp
  have f0: "pct_where 2 0 = 0" using f by simp
  have f3: "pct_where 2 3 = 200 / 3" using f by simp
  have w0: "zero_total_warning [3, 0] = [ZeroTotal]" using w by simp
  have w3: "zero_total_warning [3] = []" using w by simp
  from ok z basal_A_scenario p cell f0 f3 w0 w3 show ?thesis by simp
qed

subsection \<open>C7: coordinates and age are means over the valid records\<close>




end
